theory Spec2Isabelle
  imports Complex_Main "HOL-Library.Word" "HOL-Library.Log_Nat"
begin

unbundle bit_operations_syntax

section \<open>Colour conversion (ui.go, imguiColorToPixelColor)\<close>

text \<open>
  Go's \<open>color.RGBA\<close>: four \<open>uint8\<close> channels. The packed colour of the GUI library is a
  \<open>uint32\<close>.
\<close>

record RGBA8 =
  R :: "8 word"
  G :: "8 word"
  B :: "8 word"
  A :: "8 word"

text \<open>
  \<open>uint8((c >> 24) & 0xFF)\<close> and its siblings: a logical right shift, a mask, and the
  truncating conversion to \<open>uint8\<close>.
\<close>

definition imguiColorToPixelColor :: "32 word \<Rightarrow> RGBA8" where
  "imguiColorToPixelColor c =
     \<lparr> R = ucast (c AND 0xFF),
       G = ucast (drop_bit 8 c AND 0xFF),
       B = ucast (drop_bit 16 c AND 0xFF),
       A = ucast (drop_bit 24 c AND 0xFF) \<rparr>"

text \<open>
  The inverse operation the specification speaks of (it is not part of the source): the four
  channels packed again with alpha in the highest byte, then blue, green and red.
\<close>

definition spec_packABGR :: "RGBA8 \<Rightarrow> 32 word" where
  "spec_packABGR p =
     push_bit 24 (ucast (A p)) OR push_bit 16 (ucast (B p)) OR
     push_bit 8 (ucast (G p)) OR ucast (R p)"

section \<open>Floating point\<close>

text \<open>
  A finite \<open>float64\<close> value is the rational number it denotes. Every arithmetic
  operation of the source computes the exact result and rounds it to the nearest value with a
  53-bit significand, ties to the even significand (IEEE 754 binary64, the arithmetic of Go's
  \<open>float64\<close>), with gradual underflow below \<open>2^-1022\<close>. Each operation rounds on
  its own: a multiplication is not fused with the addition that follows it. Infinities, NaN and the
  sign of zero have no counterpart here: a result beyond the largest finite \<open>float64\<close>
  and a division by zero are outside the model. \<open>math.Min\<close> and \<open>math.Max\<close> are
  exact on finite values. A \<open>float32\<close> converts to \<open>float64\<close> without rounding.
\<close>

type_synonym float64 = rat

definition pow2 :: "int \<Rightarrow> rat" where
  "pow2 e = (if 0 \<le> e then 2 ^ nat e else 1 / 2 ^ nat (- e))"

text \<open>For \<open>q > 0\<close>, the exponent \<open>e\<close> with \<open>2^e \<le> q < 2^(e+1)\<close>.\<close>

definition ilog2 :: "rat \<Rightarrow> int" where
  "ilog2 q = (case quotient_of q of (n, d) \<Rightarrow>
     (let k = bitlen n - bitlen d in if pow2 k \<le> q then k else k - 1))"

definition roundHalfEven :: "rat \<Rightarrow> int" where
  "roundHalfEven r = (let f = \<lfloor>r\<rfloor>; d = r - of_int f in
     if d < 1 / 2 then f else if 1 / 2 < d then f + 1 else if even f then f else f + 1)"

definition f64 :: "rat \<Rightarrow> float64" where
  "f64 q = (if q = 0 then 0 else
     (let e = max (ilog2 \<bar>q\<bar>) (- 1022); u = pow2 (e - 52)
      in of_int (roundHalfEven (q / u)) * u))"

text \<open>
  The conversion \<open>float32(x)\<close> of a \<open>float64\<close>: the nearest value with a 24-bit
  significand, ties to even, with gradual underflow below \<open>2^-126\<close>.
\<close>

type_synonym float32 = rat

definition f32 :: "float64 \<Rightarrow> float32" where
  "f32 q = (if q = 0 then 0 else
     (let e = max (ilog2 \<bar>q\<bar>) (- 126); u = pow2 (e - 23)
      in of_int (roundHalfEven (q / u)) * u))"

definition add64 :: "float64 \<Rightarrow> float64 \<Rightarrow> float64" where
  "add64 a b = f64 (a + b)"

definition sub64 :: "float64 \<Rightarrow> float64 \<Rightarrow> float64" where
  "sub64 a b = f64 (a - b)"

definition mul64 :: "float64 \<Rightarrow> float64 \<Rightarrow> float64" where
  "mul64 a b = f64 (a * b)"

definition div64 :: "float64 \<Rightarrow> float64 \<Rightarrow> float64" where
  "div64 a b = f64 (a / b)"

section \<open>The host engine's geometry (package pixel)\<close>

text \<open>
  \<open>pixel.Vec\<close>, \<open>pixel.Rect\<close> and \<open>pixel.Matrix\<close> with the methods the two source
  files call, as the engine documents them: \<open>Rect.Norm\<close> returns the rectangle with the
  componentwise minimum as \<open>Min\<close> and maximum as \<open>Max\<close>; \<open>Rect.Center\<close> is the
  interpolation \<open>Lerp(Min, Max, 0.5)\<close>; a matrix is the six numbers of an affine map,
  \<open>Project\<close> applies it, and \<open>ScaledXY\<close> scales it around a point.
\<close>

record Vec =
  X :: float64
  Y :: float64

definition pixel_V :: "float64 \<Rightarrow> float64 \<Rightarrow> Vec" where
  "pixel_V x y = \<lparr> X = x, Y = y \<rparr>"

definition pixel_ZV :: Vec where
  "pixel_ZV = pixel_V 0 0"

definition Vec_Add :: "Vec \<Rightarrow> Vec \<Rightarrow> Vec" where
  "Vec_Add u v = pixel_V (add64 (X u) (X v)) (add64 (Y u) (Y v))"

definition Vec_Scaled :: "Vec \<Rightarrow> float64 \<Rightarrow> Vec" where
  "Vec_Scaled u c = pixel_V (mul64 (X u) c) (mul64 (Y u) c)"

definition Vec_ScaledXY :: "Vec \<Rightarrow> Vec \<Rightarrow> Vec" where
  "Vec_ScaledXY u v = pixel_V (mul64 (X u) (X v)) (mul64 (Y u) (Y v))"

definition Vec_Map :: "Vec \<Rightarrow> (float64 \<Rightarrow> float64) \<Rightarrow> Vec" where
  "Vec_Map u f = pixel_V (f (X u)) (f (Y u))"

definition pixel_Lerp :: "Vec \<Rightarrow> Vec \<Rightarrow> float64 \<Rightarrow> Vec" where
  "pixel_Lerp a b t = Vec_Add (Vec_Scaled a (sub64 1 t)) (Vec_Scaled b t)"

record Rect =
  MinP :: Vec
  MaxP :: Vec

definition pixel_R :: "float64 \<Rightarrow> float64 \<Rightarrow> float64 \<Rightarrow> float64 \<Rightarrow> Rect" where
  "pixel_R minX minY maxX maxY = \<lparr> MinP = pixel_V minX minY, MaxP = pixel_V maxX maxY \<rparr>"

definition Rect_W :: "Rect \<Rightarrow> float64" where
  "Rect_W r = sub64 (X (MaxP r)) (X (MinP r))"

definition Rect_H :: "Rect \<Rightarrow> float64" where
  "Rect_H r = sub64 (Y (MaxP r)) (Y (MinP r))"

definition Rect_Size :: "Rect \<Rightarrow> Vec" where
  "Rect_Size r = pixel_V (Rect_W r) (Rect_H r)"

definition Rect_Center :: "Rect \<Rightarrow> Vec" where
  "Rect_Center r = pixel_Lerp (MinP r) (MaxP r) (1 / 2)"

definition Rect_Norm :: "Rect \<Rightarrow> Rect" where
  "Rect_Norm r =
     \<lparr> MinP = pixel_V (min (X (MinP r)) (X (MaxP r))) (min (Y (MinP r)) (Y (MaxP r))),
       MaxP = pixel_V (max (X (MinP r)) (X (MaxP r))) (max (Y (MinP r)) (Y (MaxP r))) \<rparr>"

record Matrix =
  m0 :: float64
  m1 :: float64
  m2 :: float64
  m3 :: float64
  m4 :: float64
  m5 :: float64

definition pixel_IM :: Matrix where
  "pixel_IM = \<lparr> m0 = 1, m1 = 0, m2 = 0, m3 = 1, m4 = 0, m5 = 0 \<rparr>"

text \<open>
  \<open>ScaledXY\<close> moves the pivot to the origin, scales the two columns and the translation,
  and moves the pivot back, one assignment after the other.
\<close>

definition Matrix_ScaledXY :: "Matrix \<Rightarrow> Vec \<Rightarrow> Vec \<Rightarrow> Matrix" where
  "Matrix_ScaledXY m around scale =
     (let a = m\<lparr> m4 := sub64 (m4 m) (X around) \<rparr>;
          b = a\<lparr> m5 := sub64 (m5 a) (Y around) \<rparr>;
          c = b\<lparr> m0 := mul64 (m0 b) (X scale) \<rparr>;
          d = c\<lparr> m2 := mul64 (m2 c) (X scale) \<rparr>;
          e = d\<lparr> m4 := mul64 (m4 d) (X scale) \<rparr>;
          f = e\<lparr> m1 := mul64 (m1 e) (Y scale) \<rparr>;
          g = f\<lparr> m3 := mul64 (m3 f) (Y scale) \<rparr>;
          h = g\<lparr> m5 := mul64 (m5 g) (Y scale) \<rparr>;
          i = h\<lparr> m4 := add64 (m4 h) (X around) \<rparr>
      in i\<lparr> m5 := add64 (m5 i) (Y around) \<rparr>)"

definition Matrix_Project :: "Matrix \<Rightarrow> Vec \<Rightarrow> Vec" where
  "Matrix_Project m u =
     pixel_V (add64 (add64 (mul64 (m0 m) (X u)) (mul64 (m2 m) (Y u))) (m4 m))
             (add64 (add64 (mul64 (m1 m) (X u)) (mul64 (m3 m) (Y u))) (m5 m))"

text \<open>
  \<open>pixel.RGBA\<close> has four \<open>float64\<close> channels. \<open>pixel.ToRGBA\<close> reads a
  \<open>color.RGBA\<close> through its 16-bit channels (each 8-bit channel times \<open>0x101\<close>) and
  divides by \<open>0xffff\<close>.
\<close>

record RGBA =
  Rf :: float64
  Gf :: float64
  Bf :: float64
  Af :: float64

definition pixel_ToRGBA :: "RGBA8 \<Rightarrow> RGBA" where
  "pixel_ToRGBA c =
     \<lparr> Rf = div64 (of_int (uint (R c) * 257)) 65535,
       Gf = div64 (of_int (uint (G c) * 257)) 65535,
       Bf = div64 (of_int (uint (B c) * 257)) 65535,
       Af = div64 (of_int (uint (A c) * 257)) 65535 \<rparr>"

section \<open>The GUI library's draw data (package imgui)\<close>

text \<open>
  \<open>imgui.Vec2\<close> and \<open>imgui.Vec4\<close> hold \<open>float32\<close> fields. A vertex has a
  position, a texture coordinate and a packed colour. A draw command is a run of
  \<open>ElemCount\<close> indices drawn with one texture and one clip rectangle, or a user callback.
  A command list owns a vertex buffer, an index buffer of \<open>uint16\<close> and its commands; the
  draw data of a frame is the list of its command lists.
\<close>

record ImVec2 =
  X2 :: float64
  Y2 :: float64

record ImVec4 =
  X4 :: float64
  Y4 :: float64
  Z4 :: float64
  W4 :: float64

record DrawVert =
  pos :: ImVec2
  uv :: ImVec2
  col :: "32 word"

record DrawCmd =
  HasUserCallback :: bool
  ElemCount :: "32 word"
  ClipRect :: ImVec4
  TexID :: "64 word"

record DrawList =
  VertexBuffer :: "DrawVert list"
  IndexBuffer :: "16 word list"
  Commands :: "DrawCmd list"

section \<open>The output triangle buffer (opengl.GLTriangles)\<close>

text \<open>
  One output vertex carries a position, a colour, the atlas coordinate with the intensity
  flag, and a clip rectangle. The buffer holds the attributes as \<open>float32\<close>: a setter
  narrows every component of the \<open>float64\<close> value it is given, writes the attribute of the
  vertex at an index, and panics when the index is out of range. \<open>SetLen\<close> appends
  default vertices or cuts the buffer.
\<close>

datatype error = IndexOutOfRange | BadRead | UnknownTexture

record GLVertex =
  position :: Vec
  color :: RGBA
  picture :: Vec
  intensity :: float32
  clipRect :: Rect

definition narrowVec :: "Vec \<Rightarrow> Vec" where
  "narrowVec v = pixel_V (f32 (X v)) (f32 (Y v))"

definition narrowRect :: "Rect \<Rightarrow> Rect" where
  "narrowRect r = \<lparr> MinP = narrowVec (MinP r), MaxP = narrowVec (MaxP r) \<rparr>"

definition narrowRGBA :: "RGBA \<Rightarrow> RGBA" where
  "narrowRGBA c = \<lparr> Rf = f32 (Rf c), Gf = f32 (Gf c), Bf = f32 (Bf c), Af = f32 (Af c) \<rparr>"

definition defaultVertex :: GLVertex where
  "defaultVertex =
     \<lparr> position = pixel_ZV, color = \<lparr> Rf = 1, Gf = 1, Bf = 1, Af = 1 \<rparr>,
       picture = pixel_ZV, intensity = 0, clipRect = pixel_R 0 0 0 0 \<rparr>"

definition SetLen :: "nat \<Rightarrow> GLVertex list \<Rightarrow> GLVertex list" where
  "SetLen n tris =
     (if length tris < n then tris @ replicate (n - length tris) defaultVertex
      else take n tris)"

definition SetPosition :: "nat \<Rightarrow> Vec \<Rightarrow> GLVertex list \<Rightarrow> error + GLVertex list" where
  "SetPosition i v tris =
     (if i < length tris then Inr (tris[i := (tris ! i)\<lparr> position := narrowVec v \<rparr>])
      else Inl IndexOutOfRange)"

definition SetPicture :: "nat \<Rightarrow> Vec \<Rightarrow> float64 \<Rightarrow> GLVertex list \<Rightarrow> error + GLVertex list" where
  "SetPicture i v k tris =
     (if i < length tris
      then Inr (tris[i := (tris ! i)\<lparr> picture := narrowVec v, intensity := f32 k \<rparr>])
      else Inl IndexOutOfRange)"

definition SetColor :: "nat \<Rightarrow> RGBA \<Rightarrow> GLVertex list \<Rightarrow> error + GLVertex list" where
  "SetColor i c tris =
     (if i < length tris then Inr (tris[i := (tris ! i)\<lparr> color := narrowRGBA c \<rparr>])
      else Inl IndexOutOfRange)"

definition SetClipRect :: "nat \<Rightarrow> Rect \<Rightarrow> GLVertex list \<Rightarrow> error + GLVertex list" where
  "SetClipRect i r tris =
     (if i < length tris then Inr (tris[i := (tris ! i)\<lparr> clipRect := narrowRect r \<rparr>])
      else Inl IndexOutOfRange)"

section \<open>The UI state (ui.go, type UI)\<close>

text \<open>
  Of the window the model keeps its bounds and its raw mouse scroll; of the GUI library's IO
  object the capture flag and the key-state table; of the atlas the sub-rectangle of every
  texture id (\<open>atlas.Get(id).Frame()\<close>) and the bounds of its textures
  (\<open>atlas.Textures()\<close>); \<open>font\<close> is the id of the glyph texture (\<open>ui.font.ID()\<close>).
\<close>

record KeyData =
  Down :: bool
  DownDuration :: float64
  DownDurationPrev :: float64
  AnalogValue :: float64

record Window =
  Bounds :: Rect
  WinMouseScroll :: Vec

record IO =
  WantCaptureMouse :: bool
  KeysData :: "KeyData list"

record Atlas =
  Frames :: "(32 word \<times> Rect) list"
  Textures :: "Rect list"

record UI =
  win :: Window
  io :: IO
  matrix :: Matrix
  shaderTris :: "GLVertex list"
  atlas :: Atlas
  font :: "32 word"

section \<open>The frame translator (ui.go)\<close>

text \<open>
  Modelled from the spec: the helpers \<open>PV\<close> and \<open>imguiRectToPixelRect\<close> are called by
  \<open>Draw\<close> but are not among the source files. \<open>PV\<close> reads a vector of the GUI library
  as a host vector with the same coordinates. \<open>imguiRectToPixelRect\<close> reads the four
  components of a clip rectangle as the minimum corner \<open>(X, Y)\<close> and the maximum corner
  \<open>(Z, W)\<close>; the change of convention is the projection that follows it in \<open>Draw\<close>.
\<close>

definition PV :: "ImVec2 \<Rightarrow> Vec" where
  "PV v = pixel_V (X2 v) (Y2 v)"

definition imguiRectToPixelRect :: "ImVec4 \<Rightarrow> Rect" where
  "imguiRectToPixelRect r = pixel_R (X4 r) (Y4 r) (Z4 r) (W4 r)"

definition updateMatrix :: "UI \<Rightarrow> UI" where
  "updateMatrix ui =
     ui\<lparr> matrix := Matrix_ScaledXY pixel_IM (Rect_Center (Bounds (win ui))) (pixel_V 1 (- 1)) \<rparr>"

definition recip :: "float64 \<Rightarrow> float64" where
  "recip m = div64 1 m"

text \<open>\<open>ui.atlas.Textures()[0]\<close> panics on an atlas without a texture.\<close>

definition calcData :: "UI \<Rightarrow> Rect \<Rightarrow> Vec \<Rightarrow> error + Vec" where
  "calcData ui frame uuvv =
     (case Textures (atlas ui) of
        [] \<Rightarrow> Inl IndexOutOfRange
      | t # _ \<Rightarrow>
          Inr (Vec_ScaledXY (Vec_Add (Vec_ScaledXY uuvv (Rect_Size frame)) (MinP frame))
                 (Vec_Map (Rect_Size t) recip)))"

text \<open>
  The formula of the specification, \<open>(raw_uv * subrect.size + subrect.min) / atlas_texture.size\<close>,
  in \<open>float64\<close> arithmetic. It is not part of the source.
\<close>

definition spec_atlasUV :: "Rect \<Rightarrow> Vec \<Rightarrow> Vec \<Rightarrow> Vec" where
  "spec_atlasUV frame atlasSize raw =
     pixel_V (div64 (add64 (mul64 (X raw) (X (Rect_Size frame))) (X (MinP frame))) (X atlasSize))
             (div64 (add64 (mul64 (Y raw) (Y (Rect_Size frame))) (Y (MinP frame))) (Y atlasSize))"

text \<open>
  The same with the division replaced by the multiplication with the reciprocal of the atlas
  size, \<open>(raw_uv * subrect.size + subrect.min) * (1 / atlas_texture.size)\<close>: the formula of
  the specification as it is amended. It is not part of the source.
\<close>

definition spec_atlasUV_recip :: "Rect \<Rightarrow> Vec \<Rightarrow> Vec \<Rightarrow> Vec" where
  "spec_atlasUV_recip frame atlasSize raw =
     pixel_V (mul64 (add64 (mul64 (X raw) (X (Rect_Size frame))) (X (MinP frame)))
                    (div64 1 (X atlasSize)))
             (mul64 (add64 (mul64 (Y raw) (Y (Rect_Size frame))) (Y (MinP frame)))
                    (div64 1 (Y atlasSize)))"

text \<open>
  Lines 176 to 179 of \<open>Draw\<close>: the clip rectangle of a command is normalised, its two corners
  are projected through the UI matrix, and the result is normalised again.
\<close>

definition clipRectOf :: "Matrix \<Rightarrow> ImVec4 \<Rightarrow> Rect" where
  "clipRectOf m cr =
     (let c0 = Rect_Norm (imguiRectToPixelRect cr);
          c1 = c0\<lparr> MinP := Matrix_Project m (MinP c0) \<rparr>;
          c2 = c1\<lparr> MaxP := Matrix_Project m (MaxP c1) \<rparr>
      in Rect_Norm c2)"

text \<open>
  The reads through \<open>unsafe.Pointer\<close>. The buffers are lists of their elements: the byte
  offset into the index buffer advances by the size of one index per read, so it is counted
  in indices, and \<open>start + index * vertexSize\<close> is the vertex at position \<open>index\<close>.
  The source does not check either read; a read outside the buffer is the error \<open>BadRead\<close>.
\<close>

definition readIndex :: "DrawList \<Rightarrow> nat \<Rightarrow> error + 16 word" where
  "readIndex cmds off =
     (if off < length (IndexBuffer cmds) then Inr (IndexBuffer cmds ! off) else Inl BadRead)"

definition readVertex :: "DrawList \<Rightarrow> 16 word \<Rightarrow> error + DrawVert" where
  "readVertex cmds index =
     (if unat index < length (VertexBuffer cmds) then Inr (VertexBuffer cmds ! unat index)
      else Inl BadRead)"

text \<open>Lines 202 to 205: the four setters on the output vertex \<open>iStart + i\<close>.\<close>

definition setVertex ::
  "nat \<Rightarrow> Vec \<Rightarrow> Vec \<Rightarrow> float64 \<Rightarrow> RGBA \<Rightarrow> Rect \<Rightarrow> GLVertex list \<Rightarrow> error + GLVertex list" where
  "setVertex k p t intens c r tris =
     (case SetPosition k p tris of Inl e \<Rightarrow> Inl e | Inr t1 \<Rightarrow>
      case SetPicture k t intens t1 of Inl e \<Rightarrow> Inl e | Inr t2 \<Rightarrow>
      case SetColor k c t2 of Inl e \<Rightarrow> Inl e | Inr t3 \<Rightarrow>
      SetClipRect k r t3)"

text \<open>
  The loop over the indices of one command (lines 190 to 207). It returns the index-buffer
  offset and the UI with the vertices written.
\<close>

function vertexLoop ::
  "DrawList \<Rightarrow> Rect \<Rightarrow> float64 \<Rightarrow> Rect \<Rightarrow> nat \<Rightarrow> nat \<Rightarrow> nat \<Rightarrow> nat \<Rightarrow> UI \<Rightarrow> error + (nat \<times> UI)" where
  "vertexLoop cmds texRect intens clip iStart count i indexBufferOffset ui =
     (if i < count then
        (case readIndex cmds indexBufferOffset of Inl e \<Rightarrow> Inl e | Inr index \<Rightarrow>
         case readVertex cmds index of Inl e \<Rightarrow> Inl e | Inr v \<Rightarrow>
         case calcData ui texRect (PV (uv v)) of Inl e \<Rightarrow> Inl e | Inr uuvv \<Rightarrow>
         case setVertex (iStart + i) (PV (pos v)) uuvv intens
                (pixel_ToRGBA (imguiColorToPixelColor (col v))) clip (shaderTris ui) of
           Inl e \<Rightarrow> Inl e
         | Inr tris \<Rightarrow>
             vertexLoop cmds texRect intens clip iStart count (i + 1) (indexBufferOffset + 1)
               (ui\<lparr> shaderTris := tris \<rparr>))
      else Inr (indexBufferOffset, ui))"
  by pat_completeness auto
termination
  by (relation "measure (\<lambda>(cmds, texRect, intens, clip, iStart, count, i, off, ui). count - i)") auto

declare vertexLoop.simps [simp del]

definition atlasGet :: "UI \<Rightarrow> 32 word \<Rightarrow> Rect option" where
  "atlasGet ui ident = map_of (Frames (atlas ui)) ident"

text \<open>
  One command (lines 165 to 208), on the running triangle count, the index-buffer offset of
  its list and the UI. A user callback is code of the application: it is taken to leave the
  three alone. A texture id the atlas does not know is the error \<open>UnknownTexture\<close>.
  \<open>totalTris\<close> is an \<open>int\<close> of 64 bits in the source; the sum of the 32-bit element
  counts of a frame stays far below its range, so it is a natural number here.
\<close>

definition drawCmd :: "DrawList \<Rightarrow> DrawCmd \<Rightarrow> nat \<times> nat \<times> UI \<Rightarrow> error + (nat \<times> nat \<times> UI)" where
  "drawCmd cmds cmd st =
     (case st of (totalTris, indexBufferOffset, ui) \<Rightarrow>
        if HasUserCallback cmd then Inr st
        else
          (let count = unat (ElemCount cmd);
               iStart = totalTris;
               totalTris1 = totalTris + count;
               ui1 = (if length (shaderTris ui) < totalTris1
                      then ui\<lparr> shaderTris := SetLen totalTris1 (shaderTris ui) \<rparr> else ui);
               clip = clipRectOf (matrix ui1) (ClipRect cmd);
               ident = (ucast (TexID cmd) :: 32 word)
           in case atlasGet ui1 ident of
                None \<Rightarrow> Inl UnknownTexture
              | Some texRect \<Rightarrow>
                  (let intens = (if ident \<noteq> font ui1 then 1 else 0)
                   in case vertexLoop cmds texRect intens clip iStart count 0 indexBufferOffset ui1 of
                        Inl e \<Rightarrow> Inl e
                      | Inr (off, ui2) \<Rightarrow> Inr (totalTris1, off, ui2))))"

fun commandsLoop :: "DrawList \<Rightarrow> DrawCmd list \<Rightarrow> nat \<times> nat \<times> UI \<Rightarrow> error + (nat \<times> nat \<times> UI)" where
  "commandsLoop cmds [] st = Inr st"
| "commandsLoop cmds (cmd # rest) st =
     (case drawCmd cmds cmd st of Inl e \<Rightarrow> Inl e | Inr st1 \<Rightarrow> commandsLoop cmds rest st1)"

text \<open>One command list (the body of the outer loop): the index-buffer offset starts at 0.\<close>

definition drawList :: "DrawList \<Rightarrow> nat \<times> UI \<Rightarrow> error + (nat \<times> UI)" where
  "drawList cmds st =
     (case st of (totalTris, ui) \<Rightarrow>
        case commandsLoop cmds (Commands cmds) (totalTris, 0, ui) of
          Inl e \<Rightarrow> Inl e
        | Inr (totalTris1, off, ui1) \<Rightarrow> Inr (totalTris1, ui1))"

fun commandListsLoop :: "DrawList list \<Rightarrow> nat \<times> UI \<Rightarrow> error + (nat \<times> UI)" where
  "commandListsLoop [] st = Inr st"
| "commandListsLoop (cmds # rest) st =
     (case drawList cmds st of Inl e \<Rightarrow> Inl e | Inr st1 \<Rightarrow> commandListsLoop rest st1)"

text \<open>
  \<open>Draw\<close>: the matrix is set from the window, the loops run from a count of 0, the buffer
  is cut to the count, and the first atlas texture is taken for the draw call. Rendering
  itself is the engine's.
\<close>

definition Draw :: "UI \<Rightarrow> DrawList list \<Rightarrow> error + UI" where
  "Draw ui0 data =
     (case commandListsLoop data (0, updateMatrix ui0) of
        Inl e \<Rightarrow> Inl e
      | Inr (totalTris, ui1) \<Rightarrow>
          (let ui2 = ui1\<lparr> shaderTris := SetLen totalTris (shaderTris ui1) \<rparr>
           in case Textures (atlas ui2) of [] \<Rightarrow> Inl IndexOutOfRange | t # ts \<Rightarrow> Inr ui2))"

text \<open>
  The commands of a list that draw, and a value \<open>f cmd\<close> laid out as the specification
  lays out the output: once for every element of every drawing command, in the order of the
  frame. Neither is part of the source.
\<close>

definition spec_drawn :: "DrawList \<Rightarrow> DrawCmd list" where
  "spec_drawn cmds = filter (\<lambda>cmd. \<not> HasUserCallback cmd) (Commands cmds)"

definition spec_perVertex :: "(DrawCmd \<Rightarrow> 'a) \<Rightarrow> DrawList list \<Rightarrow> 'a list" where
  "spec_perVertex f data =
     concat (map (\<lambda>cmds. concat (map (\<lambda>cmd. replicate (unat (ElemCount cmd)) (f cmd))
       (spec_drawn cmds))) data)"


section \<open>The input forwarder (input.go)\<close>

text \<open>
  \<open>pixel.Button\<close> is an \<open>int\<close> (64 bits) and \<open>imgui.Key\<close> an \<open>int32\<close>. The numbers
  behind the named keys of the two libraries and the test \<open>IsKeyboardButton\<close> are declared
  outside the source files: they are parameters, \<open>pk\<close> for the host's key codes,
  \<open>ik\<close> for the GUI library's and \<open>isKeyboardButton\<close> for the test.
\<close>

datatype PixelKey =
  pixel_KeyTab | pixel_KeyLeft | pixel_KeyRight | pixel_KeyUp | pixel_KeyDown
| pixel_KeyPageUp | pixel_KeyPageDown | pixel_KeyHome | pixel_KeyEnd | pixel_KeyInsert
| pixel_KeyDelete | pixel_KeyBackspace | pixel_KeySpace | pixel_KeyEnter | pixel_KeyEscape
| pixel_KeyA | pixel_KeyC | pixel_KeyV | pixel_KeyX | pixel_KeyY | pixel_KeyZ

datatype ImguiKey =
  imgui_KeyTab | imgui_KeyLeftArrow | imgui_KeyRightArrow | imgui_KeyUpArrow | imgui_KeyDownArrow
| imgui_KeyPageUp | imgui_KeyPageDown | imgui_KeyHome | imgui_KeyEnd | imgui_KeyInsert
| imgui_KeyDelete | imgui_KeyBackspace | imgui_KeySpace | imgui_KeyEnter | imgui_KeyEscape
| imgui_KeyA | imgui_KeyC | imgui_KeyV | imgui_KeyX | imgui_KeyY | imgui_KeyZ

datatype Action = Release | Press | Repeat

text \<open>The table \<open>keyMap\<close> (lines 154 to 177), entry by entry.\<close>

definition keyTable :: "(PixelKey \<times> ImguiKey) list" where
  "keyTable =
     [ (pixel_KeyTab, imgui_KeyTab),
       (pixel_KeyLeft, imgui_KeyLeftArrow),
       (pixel_KeyRight, imgui_KeyRightArrow),
       (pixel_KeyUp, imgui_KeyUpArrow),
       (pixel_KeyDown, imgui_KeyDownArrow),
       (pixel_KeyPageUp, imgui_KeyPageUp),
       (pixel_KeyPageDown, imgui_KeyPageDown),
       (pixel_KeyHome, imgui_KeyHome),
       (pixel_KeyEnd, imgui_KeyEnd),
       (pixel_KeyInsert, imgui_KeyInsert),
       (pixel_KeyDelete, imgui_KeyDelete),
       (pixel_KeyBackspace, imgui_KeyBackspace),
       (pixel_KeySpace, imgui_KeySpace),
       (pixel_KeyEnter, imgui_KeyEnter),
       (pixel_KeyEscape, imgui_KeyEscape),
       (pixel_KeyA, imgui_KeyA),
       (pixel_KeyC, imgui_KeyC),
       (pixel_KeyV, imgui_KeyV),
       (pixel_KeyX, imgui_KeyX),
       (pixel_KeyY, imgui_KeyY),
       (pixel_KeyZ, imgui_KeyZ) ]"

definition keyMap :: "(PixelKey \<Rightarrow> 64 word) \<Rightarrow> (ImguiKey \<Rightarrow> 32 word) \<Rightarrow> 64 word \<Rightarrow> 32 word option" where
  "keyMap pk ik = map_of (map (\<lambda>(h, g). (pk h, ik g)) keyTable)"

text \<open>
  \<open>keysData[mappedVal].SetDown(v)\<close>: the table is an array indexed by the signed 32-bit
  key; an index below 0 or beyond the array panics. \<open>SetDown\<close> writes the field \<open>Down\<close>.
\<close>

definition setDownAt :: "KeyData list \<Rightarrow> 32 word \<Rightarrow> bool \<Rightarrow> error + KeyData list" where
  "setDownAt keysData mappedVal v =
     (if 0 \<le> sint mappedVal \<and> nat (sint mappedVal) < length keysData
      then Inr (keysData[nat (sint mappedVal) := (keysData ! nat (sint mappedVal))\<lparr> Down := v \<rparr>])
      else Inl IndexOutOfRange)"

text \<open>
  The callback registered by \<open>initIO\<close> (lines 32 to 53). \<open>imgui.Key(button + 8)\<close> adds in
  64 bits and keeps the low 32 bits.
\<close>

definition buttonCallback ::
  "(64 word \<Rightarrow> bool) \<Rightarrow> (PixelKey \<Rightarrow> 64 word) \<Rightarrow> (ImguiKey \<Rightarrow> 32 word) \<Rightarrow>
   UI \<Rightarrow> 64 word \<Rightarrow> Action \<Rightarrow> error + UI" where
  "buttonCallback isKeyboardButton pk ik ui button action =
     (if \<not> isKeyboardButton button then Inr ui
      else
        (let keysData = KeysData (io ui);
             mappedVal = (case keyMap pk ik button of
                            Some v \<Rightarrow> v - 512
                          | None \<Rightarrow> ucast (button + 8))
         in case (case action of
                    Press \<Rightarrow> setDownAt keysData mappedVal True
                  | Release \<Rightarrow> setDownAt keysData mappedVal False
                  | Repeat \<Rightarrow> Inr keysData) of
              Inl e \<Rightarrow> Inl e
            | Inr keysData1 \<Rightarrow> Inr (ui\<lparr> io := (io ui)\<lparr> KeysData := keysData1 \<rparr> \<rparr>)))"

definition MouseScroll :: "UI \<Rightarrow> Vec" where
  "MouseScroll ui = (if WantCaptureMouse (io ui) then pixel_ZV else WinMouseScroll (win ui))"

text \<open>
  What the specification expects of a key event: the UI in which the entry \<open>n\<close> of the
  key-state table has its down-state set to \<open>v\<close>, and nothing else differs. It is not part
  of the source.
\<close>

definition spec_keyDown :: "UI \<Rightarrow> nat \<Rightarrow> bool \<Rightarrow> UI" where
  "spec_keyDown ui n v =
     ui\<lparr> io := (io ui)\<lparr> KeysData :=
       (KeysData (io ui))[n := (KeysData (io ui) ! n)\<lparr> Down := v \<rparr>] \<rparr> \<rparr>"

section \<open>Auxiliary notions of the proofs\<close>

text \<open>
  The two attributes of an output vertex that the claims speak of, the pair a command gives to
  its vertices (narrowed to \<open>float32\<close>, as the setters store it), and the UI after the buffer has been grown to hold \<open>n\<close> vertices (the
  conditional \<open>SetLen\<close> of lines 172 to 174).
\<close>

definition cmdAttrs :: "UI \<Rightarrow> DrawCmd \<Rightarrow> float32 \<times> Rect" where
  "cmdAttrs ui cmd =
     (f32 (if (ucast (TexID cmd) :: 32 word) = font ui then 0 else 1),
      narrowRect (clipRectOf (matrix ui) (ClipRect cmd)))"

definition vertexAttrs :: "GLVertex \<Rightarrow> float32 \<times> Rect" where
  "vertexAttrs v = (intensity v, clipRect v)"

definition grown :: "UI \<Rightarrow> nat \<Rightarrow> UI" where
  "grown ui n = (if length (shaderTris ui) < n then ui\<lparr> shaderTris := SetLen n (shaderTris ui) \<rparr> else ui)"

section \<open>Example inputs\<close>

text \<open>
  Concrete inputs on which the theorems below are exercised. The key numbering takes the
  host's codes from GLFW and the GUI library's from its enumeration of named keys, which
  starts at 512; the key-state table has 155 entries. The example UI has an 800 by 600
  window, a triangle buffer of six vertices left from an earlier frame and an atlas of one
  64 by 64 texture, in which the glyph texture 1 takes the whole and the texture 2 the
  square from (16, 16) to (48, 48).
\<close>

fun ex_pk :: "PixelKey \<Rightarrow> 64 word" where
  "ex_pk pixel_KeyTab = 258"
| "ex_pk pixel_KeyLeft = 263"
| "ex_pk pixel_KeyRight = 262"
| "ex_pk pixel_KeyUp = 265"
| "ex_pk pixel_KeyDown = 264"
| "ex_pk pixel_KeyPageUp = 266"
| "ex_pk pixel_KeyPageDown = 267"
| "ex_pk pixel_KeyHome = 268"
| "ex_pk pixel_KeyEnd = 269"
| "ex_pk pixel_KeyInsert = 260"
| "ex_pk pixel_KeyDelete = 261"
| "ex_pk pixel_KeyBackspace = 259"
| "ex_pk pixel_KeySpace = 32"
| "ex_pk pixel_KeyEnter = 257"
| "ex_pk pixel_KeyEscape = 256"
| "ex_pk pixel_KeyA = 65"
| "ex_pk pixel_KeyC = 67"
| "ex_pk pixel_KeyV = 86"
| "ex_pk pixel_KeyX = 88"
| "ex_pk pixel_KeyY = 89"
| "ex_pk pixel_KeyZ = 90"

fun ex_ik :: "ImguiKey \<Rightarrow> 32 word" where
  "ex_ik imgui_KeyTab = 512"
| "ex_ik imgui_KeyLeftArrow = 513"
| "ex_ik imgui_KeyRightArrow = 514"
| "ex_ik imgui_KeyUpArrow = 515"
| "ex_ik imgui_KeyDownArrow = 516"
| "ex_ik imgui_KeyPageUp = 517"
| "ex_ik imgui_KeyPageDown = 518"
| "ex_ik imgui_KeyHome = 519"
| "ex_ik imgui_KeyEnd = 520"
| "ex_ik imgui_KeyInsert = 521"
| "ex_ik imgui_KeyDelete = 522"
| "ex_ik imgui_KeyBackspace = 523"
| "ex_ik imgui_KeySpace = 524"
| "ex_ik imgui_KeyEnter = 525"
| "ex_ik imgui_KeyEscape = 526"
| "ex_ik imgui_KeyA = 546"
| "ex_ik imgui_KeyC = 548"
| "ex_ik imgui_KeyV = 567"
| "ex_ik imgui_KeyX = 569"
| "ex_ik imgui_KeyY = 570"
| "ex_ik imgui_KeyZ = 571"

definition ex_isKeyboardButton :: "64 word \<Rightarrow> bool" where
  "ex_isKeyboardButton b = (32 \<le> sint b \<and> sint b \<le> 348)"

definition ex_key :: KeyData where
  "ex_key = \<lparr> Down = False, DownDuration = - 1, DownDurationPrev = - 1, AnalogValue = 0 \<rparr>"

definition ex_ui :: UI where
  "ex_ui =
     \<lparr> win = \<lparr> Bounds = pixel_R 0 0 800 600, WinMouseScroll = pixel_V 0 3 \<rparr>,
       io = \<lparr> WantCaptureMouse = False, KeysData = replicate 155 ex_key \<rparr>,
       matrix = pixel_IM,
       shaderTris = replicate 6 defaultVertex,
       atlas = \<lparr> Frames = [(1, pixel_R 0 0 64 64), (2, pixel_R 16 16 48 48)],
                 Textures = [pixel_R 0 0 64 64] \<rparr>,
       font = 1 \<rparr>"

text \<open>
  A frame of two command lists on an 800 by 600 window: the first list has no command; the
  second has a user callback, a command of three elements with the texture 2 and a command
  of one element with the glyph texture 1 and the all-zero clip rectangle.
\<close>

definition ex_listA :: DrawList where
  "ex_listA = \<lparr> VertexBuffer = [], IndexBuffer = [], Commands = [] \<rparr>"

definition ex_cmd0 :: DrawCmd where
  "ex_cmd0 = \<lparr> HasUserCallback = True, ElemCount = 7,
               ClipRect = \<lparr> X4 = 0, Y4 = 0, Z4 = 800, W4 = 600 \<rparr>, TexID = 2 \<rparr>"

definition ex_cmd1 :: DrawCmd where
  "ex_cmd1 = \<lparr> HasUserCallback = False, ElemCount = 3,
               ClipRect = \<lparr> X4 = 10, Y4 = 20, Z4 = 110, W4 = 220 \<rparr>, TexID = 2 \<rparr>"

definition ex_cmd2 :: DrawCmd where
  "ex_cmd2 = \<lparr> HasUserCallback = False, ElemCount = 1,
               ClipRect = \<lparr> X4 = 0, Y4 = 0, Z4 = 0, W4 = 0 \<rparr>, TexID = 1 \<rparr>"

definition ex_listB :: DrawList where
  "ex_listB =
     \<lparr> VertexBuffer =
         [ \<lparr> pos = \<lparr> X2 = 10, Y2 = 20 \<rparr>, uv = \<lparr> X2 = 0, Y2 = 0 \<rparr>, col = 0xFF0000FF \<rparr>,
           \<lparr> pos = \<lparr> X2 = 110, Y2 = 20 \<rparr>, uv = \<lparr> X2 = 1, Y2 = 0 \<rparr>, col = 0xFF00FF00 \<rparr>,
           \<lparr> pos = \<lparr> X2 = 110, Y2 = 220 \<rparr>, uv = \<lparr> X2 = 1, Y2 = 1 \<rparr>, col = 0xFFFF0000 \<rparr> ],
       IndexBuffer = [0, 1, 2, 2],
       Commands = [ex_cmd0, ex_cmd1, ex_cmd2] \<rparr>"

definition ex_data :: "DrawList list" where
  "ex_data = [ex_listA, ex_listB]"

text \<open>What \<open>Draw\<close> makes of the example UI on the example frame.\<close>

definition ex_drawn :: UI where
  "ex_drawn =
     ex_ui\<lparr> matrix := \<lparr> m0 = 1, m1 = 0, m2 = 0, m3 = - 1, m4 = 0, m5 = 600 \<rparr>,
            shaderTris :=
              [ \<lparr> position = pixel_V 10 20, color = \<lparr> Rf = 1, Gf = 0, Bf = 0, Af = 1 \<rparr>,
                  picture = pixel_V (1 / 4) (1 / 4), intensity = 1,
                  clipRect = pixel_R 10 380 110 580 \<rparr>,
                \<lparr> position = pixel_V 110 20, color = \<lparr> Rf = 0, Gf = 1, Bf = 0, Af = 1 \<rparr>,
                  picture = pixel_V (3 / 4) (1 / 4), intensity = 1,
                  clipRect = pixel_R 10 380 110 580 \<rparr>,
                \<lparr> position = pixel_V 110 220, color = \<lparr> Rf = 0, Gf = 0, Bf = 1, Af = 1 \<rparr>,
                  picture = pixel_V (3 / 4) (3 / 4), intensity = 1,
                  clipRect = pixel_R 10 380 110 580 \<rparr>,
                \<lparr> position = pixel_V 110 220, color = \<lparr> Rf = 0, Gf = 0, Bf = 1, Af = 1 \<rparr>,
                  picture = pixel_V 1 1, intensity = 0,
                  clipRect = pixel_R 0 600 0 600 \<rparr> ] \<rparr>"

text \<open>The example UI with an atlas of one 49 by 49 texture.\<close>

definition ex_ui49 :: UI where
  "ex_ui49 =
     ex_ui\<lparr> atlas := \<lparr> Frames = [(1, pixel_R 0 0 49 49)], Textures = [pixel_R 0 0 49 49] \<rparr> \<rparr>"

section \<open>Floating point: the rounding is to nearest and exact on \<open>float64\<close> values\<close>

text \<open>
  The exponent \<open>ilog2\<close> brackets its argument between two powers of two; the result of
  \<open>f64\<close> is a multiple of the unit in the last place that lies within half a unit of the
  argument (\<open>f64_nearest\<close>); a value with a 53-bit significand and an exponent of at least
  \<open>-1022\<close> is left as it is (\<open>f64_representable\<close>), integers up to \<open>2^53\<close> and
  reciprocals of powers of two among them; every result is such a value, so that rounding
  twice is rounding once (\<open>f64_idempotent\<close>). Rounding commutes with negation.
\<close>

lemma pow2_powi: "pow2 e = 2 powi e"
  by (simp add: pow2_def power_int_def inverse_eq_divide power_one_over)

lemma pow2_pos: "0 < pow2 e"
  by (simp add: pow2_powi zero_less_power_int)

lemma pow2_add: "pow2 (a + b) = pow2 a * pow2 b"
  by (simp add: pow2_powi power_int_add)

lemma pow2_Suc: "pow2 (e + 1) = 2 * pow2 e"
  by (simp add: pow2_add) (simp add: pow2_def)

lemma pow2_nat: "0 \<le> e \<Longrightarrow> pow2 e = 2 ^ nat e"
  by (simp add: pow2_def)

lemma bitlen_rat_bounds:
  assumes "0 < n"
  shows "pow2 (bitlen n - 1) \<le> of_int n \<and> of_int n < pow2 (bitlen n)"
proof -
  from assms have b: "1 \<le> bitlen n"
    using bitlen_eq_zero_iff [of n] bitlen_nonneg [of n] by linarith
  from bitlen_bounds [OF assms]
  have l: "(2 :: int) ^ nat (bitlen n - 1) \<le> n" and u: "n < 2 ^ nat (bitlen n)" by simp_all
  from l have "(of_int ((2 :: int) ^ nat (bitlen n - 1)) :: rat) \<le> of_int n"
    by (simp only: of_int_le_iff)
  then have l': "pow2 (bitlen n - 1) \<le> of_int n"
    using b by (simp add: pow2_nat)
  from u have "(of_int n :: rat) < of_int ((2 :: int) ^ nat (bitlen n))"
    by (simp only: of_int_less_iff)
  then have u': "of_int n < pow2 (bitlen n)"
    using b by (simp add: pow2_nat)
  from l' u' show ?thesis by simp
qed

lemma ilog2_bounds:
  assumes "0 < q"
  shows "pow2 (ilog2 q) \<le> q \<and> q < pow2 (ilog2 q + 1)"
proof -
  obtain n d where qd: "quotient_of q = (n, d)" by (cases "quotient_of q")
  then have dpos: "0 < d" by (rule quotient_of_denom_pos)
  from qd have q: "q = of_int n / of_int d" by (rule quotient_of_div)
  with assms dpos have npos: "0 < n" by (simp add: zero_less_divide_iff)
  define k where "k = bitlen n - bitlen d"
  note bn = bitlen_rat_bounds [OF npos]
  note bd = bitlen_rat_bounds [OF dpos]
  have dq: "(0 :: rat) < of_int d" using dpos by simp
  have up: "q < pow2 (k + 1)"
  proof -
    have "of_int n < pow2 (bitlen n)" using bn by simp
    also have "\<dots> = pow2 (k + 1) * pow2 (bitlen d - 1)"
      by (simp add: k_def flip: pow2_add)
    also have "\<dots> \<le> pow2 (k + 1) * of_int d"
      using bd pow2_pos [of "k + 1"] by (simp add: mult_left_mono)
    finally show ?thesis using dq by (simp add: q pos_divide_less_eq)
  qed
  have lo: "pow2 (k - 1) \<le> q"
  proof -
    have "pow2 (k - 1) * of_int d \<le> pow2 (k - 1) * pow2 (bitlen d)"
      using bd pow2_pos [of "k - 1"] by (simp add: mult_left_mono)
    also have "\<dots> = pow2 (bitlen n - 1)"
      by (simp add: k_def flip: pow2_add)
    also have "\<dots> \<le> of_int n" using bn by simp
    finally show ?thesis using dq by (simp add: q pos_le_divide_eq)
  qed
  show ?thesis
  proof (cases "pow2 k \<le> q")
    case True
    then have "ilog2 q = k" by (simp add: ilog2_def qd k_def Let_def)
    with True up show ?thesis by simp
  next
    case False
    then have "ilog2 q = k - 1" by (simp add: ilog2_def qd k_def Let_def)
    with False lo show ?thesis by simp
  qed
qed

lemma roundHalfEven_error: "\<bar>of_int (roundHalfEven r) - r\<bar> \<le> 1 / 2"
proof -
  have "of_int \<lfloor>r\<rfloor> \<le> r" "r < of_int \<lfloor>r\<rfloor> + 1" by linarith+
  then show ?thesis
    by (auto simp add: roundHalfEven_def Let_def abs_le_iff)
qed

lemma roundHalfEven_int: "roundHalfEven (of_int m) = m"
  by (simp add: roundHalfEven_def)

lemma f64_nearest:
  assumes "q \<noteq> 0"
  defines "u \<equiv> pow2 (max (ilog2 \<bar>q\<bar>) (- 1022) - 52)"
  shows "f64 q = of_int (roundHalfEven (q / u)) * u \<and> \<bar>f64 q - q\<bar> \<le> u / 2"
proof -
  have upos: "0 < u" by (simp add: u_def pow2_pos)
  have e: "f64 q = of_int (roundHalfEven (q / u)) * u"
    using assms(1) by (simp add: f64_def u_def Let_def)
  have "\<bar>of_int (roundHalfEven (q / u)) - q / u\<bar> \<le> 1 / 2" by (rule roundHalfEven_error)
  then have "\<bar>of_int (roundHalfEven (q / u)) - q / u\<bar> * u \<le> 1 / 2 * u"
    using upos by (simp add: mult_right_mono)
  moreover have "\<bar>of_int (roundHalfEven (q / u)) - q / u\<bar> * u = \<bar>of_int (roundHalfEven (q / u)) * u - q\<bar>"
  proof -
    have "\<bar>of_int (roundHalfEven (q / u)) - q / u\<bar> * u = \<bar>(of_int (roundHalfEven (q / u)) - q / u) * u\<bar>"
      using upos by (simp add: abs_mult)
    also have "(of_int (roundHalfEven (q / u)) - q / u) * u = of_int (roundHalfEven (q / u)) * u - q"
      using upos by (simp add: algebra_simps)
    finally show ?thesis .
  qed
  ultimately show ?thesis using e by simp
qed

lemma pow2_ge_one: "0 \<le> e \<Longrightarrow> 1 \<le> pow2 e"
  by (simp add: pow2_def)

lemma pow2_mono: "a \<le> b \<Longrightarrow> pow2 a \<le> pow2 b"
proof -
  assume "a \<le> b"
  then have "1 \<le> pow2 (b - a)" by (simp add: pow2_ge_one)
  then have "pow2 a * 1 \<le> pow2 a * pow2 (b - a)"
    using pow2_pos [of a] by (simp only: mult_le_cancel_left_pos)
  then show ?thesis by (simp flip: pow2_add)
qed

lemma pow2_strict_mono: "a < b \<Longrightarrow> pow2 a < pow2 b"
proof -
  assume "a < b"
  then have "a + 1 \<le> b" by simp
  then have "pow2 (a + 1) \<le> pow2 b" by (rule pow2_mono)
  moreover have "pow2 a < pow2 (a + 1)" using pow2_pos [of a] by (simp add: pow2_Suc)
  ultimately show ?thesis by simp
qed

lemma pow2_le_imp_le: "pow2 a \<le> pow2 b \<Longrightarrow> a \<le> b"
  using pow2_strict_mono [of b a] by (cases "a \<le> b") auto

lemma f64_of_multiple:
  assumes "x \<noteq> 0" and "x / pow2 (max (ilog2 \<bar>x\<bar>) (- 1022) - 52) = of_int k"
  shows "f64 x = x"
proof -
  define u where "u = pow2 (max (ilog2 \<bar>x\<bar>) (- 1022) - 52)"
  have upos: "0 < u" by (simp add: u_def pow2_pos)
  from assms(2) have "x / u = of_int k" by (simp add: u_def)
  then have "f64 x = x / u * u"
    using assms(1) by (simp add: f64_def u_def [symmetric] Let_def roundHalfEven_int)
  with upos show ?thesis by simp
qed

lemma f64_representable:
  assumes x: "x = of_int m * pow2 (e - 52)" and m: "\<bar>m\<bar> \<le> 2 ^ 53" and e: "- 1022 \<le> e"
  shows "f64 x = x"
proof (cases "x = 0")
  case True
  then show ?thesis by (simp add: f64_def)
next
  case False
  define L where "L = ilog2 \<bar>x\<bar>"
  define e' where "e' = max L (- 1022)"
  from False have xpos: "0 < \<bar>x\<bar>" by simp
  from ilog2_bounds [OF xpos] have lb: "pow2 L \<le> \<bar>x\<bar>" by (simp add: L_def)
  have ax: "\<bar>x\<bar> = of_int \<bar>m\<bar> * pow2 (e - 52)"
    using pow2_pos [of "e - 52"] by (simp add: x abs_mult)
  have "(of_int \<bar>m\<bar> :: rat) \<le> of_int (2 ^ 53)" using m by (simp only: of_int_le_iff)
  then have "(of_int \<bar>m\<bar> :: rat) \<le> pow2 53" by (simp add: pow2_def)
  then have "of_int \<bar>m\<bar> * pow2 (e - 52) \<le> pow2 53 * pow2 (e - 52)"
    using pow2_pos [of "e - 52"] by (simp only: mult_le_cancel_right_pos)
  moreover have p53: "pow2 53 * pow2 (e - 52) = pow2 (e + 1)"
  proof -
    have "53 + (e - 52) = e + 1" by simp
    then show ?thesis by (simp only: pow2_add [symmetric])
  qed
  ultimately have ub: "\<bar>x\<bar> \<le> pow2 (e + 1)" by (simp only: ax)
  from lb ub have "pow2 L \<le> pow2 (e + 1)" by simp
  then have Le: "L \<le> e + 1" by (rule pow2_le_imp_le)
  show ?thesis
  proof (cases "L \<le> e")
    case True
    with e have ee: "e' \<le> e" by (simp add: e'_def)
    have "pow2 (e - 52) = pow2 (e - e') * pow2 (e' - 52)" by (simp flip: pow2_add)
    then have "x / pow2 (e' - 52) = of_int m * pow2 (e - e')"
      using pow2_pos [of "e' - 52"] by (simp add: x)
    also have "\<dots> = of_int (m * 2 ^ nat (e - e'))" using ee by (simp add: pow2_nat)
    finally show ?thesis using False f64_of_multiple [of x "m * 2 ^ nat (e - e')"]
      by (simp add: e'_def L_def)
  next
    case False
    with Le have L: "L = e + 1" by simp
    with e have e'': "e' = e + 1" by (simp add: e'_def)
    from lb ub L have "\<bar>x\<bar> = pow2 (e + 1)" by simp
    then have "of_int \<bar>m\<bar> * pow2 (e - 52) = pow2 53 * pow2 (e - 52)"
      by (simp only: ax p53)
    then have "(of_int \<bar>m\<bar> :: rat) = pow2 53" using pow2_pos [of "e - 52"] by simp
    then have "(of_int \<bar>m\<bar> :: rat) = of_int (2 ^ 53)" by (simp add: pow2_def)
    then have am: "\<bar>m\<bar> = 2 ^ 53" by (simp only: of_int_eq_iff)
    then have "m = 2 ^ 53 \<or> m = - (2 ^ 53)" by (cases "0 \<le> m") simp_all
    then have mm: "m = 2 * (m div 2)" by auto
    have "pow2 (e' - 52) = 2 * pow2 (e - 52)" by (simp add: e'' flip: pow2_Suc)
    then have "x / pow2 (e' - 52) = of_int m / 2"
      using pow2_pos [of "e - 52"] by (simp add: x)
    also have "\<dots> = of_int (m div 2)" by (subst mm) simp
    finally show ?thesis using \<open>x \<noteq> 0\<close> f64_of_multiple [of x "m div 2"]
      by (simp add: e'_def L_def)
  qed
qed

lemma f64_int: "\<bar>n\<bar> \<le> 2 ^ 53 \<Longrightarrow> f64 (of_int n) = of_int n"
  using f64_representable [of "of_int n" n 52] by (simp add: pow2_def)

lemma f64_form: "\<exists>m e. f64 q = of_int m * pow2 (e - 52) \<and> \<bar>m\<bar> \<le> 2 ^ 53 \<and> - 1022 \<le> e"
proof (cases "q = 0")
  case True
  have "f64 q = of_int 0 * pow2 (0 - 52) \<and> \<bar>0 :: int\<bar> \<le> 2 ^ 53 \<and> - 1022 \<le> (0 :: int)"
    using True by (simp add: f64_def)
  then show ?thesis by blast
next
  case False
  define e where "e = max (ilog2 \<bar>q\<bar>) (- 1022)"
  define u where "u = pow2 (e - 52)"
  define m where "m = roundHalfEven (q / u)"
  have upos: "0 < u" by (simp add: u_def pow2_pos)
  from False have qpos: "0 < \<bar>q\<bar>" by simp
  have f: "f64 q = of_int m * pow2 (e - 52)"
    using False by (simp add: f64_def e_def u_def m_def Let_def)
  have "ilog2 \<bar>q\<bar> + 1 \<le> e + 1" by (simp add: e_def)
  then have "pow2 (ilog2 \<bar>q\<bar> + 1) \<le> pow2 (e + 1)" by (rule pow2_mono)
  with ilog2_bounds [OF qpos] have "\<bar>q\<bar> < pow2 (e + 1)" by simp
  also have "pow2 (e + 1) = pow2 53 * u"
  proof -
    have "53 + (e - 52) = e + 1" by simp
    then show ?thesis by (simp only: u_def pow2_add [symmetric])
  qed
  finally have "\<bar>q\<bar> / u < pow2 53" using upos by (simp add: pos_divide_less_eq)
  then have qu: "\<bar>q / u\<bar> < 2 ^ 53" using upos by (simp add: pow2_def)
  have "\<bar>of_int m - q / u\<bar> \<le> 1 / 2" unfolding m_def by (rule roundHalfEven_error)
  with qu have "\<bar>(of_int m :: rat)\<bar> < 2 ^ 53 + 1 / 2" by linarith
  then have "\<bar>(of_int m :: rat)\<bar> < of_int (2 ^ 53 + 1)" by simp
  then have "(of_int \<bar>m\<bar> :: rat) < of_int (2 ^ 53 + 1)" by simp
  then have "\<bar>m\<bar> < 2 ^ 53 + 1" by (simp only: of_int_less_iff)
  then have mb: "\<bar>m\<bar> \<le> 2 ^ 53" by simp
  have eb: "- 1022 \<le> e" by (simp add: e_def)
  from f mb eb show ?thesis by blast
qed

lemma f64_idempotent: "f64 (f64 q) = f64 q"
proof -
  from f64_form [of q] obtain m e where
    "f64 q = of_int m * pow2 (e - 52)" "\<bar>m\<bar> \<le> 2 ^ 53" "- 1022 \<le> e" by blast
  then show ?thesis by (rule f64_representable)
qed

lemma f64_zero: "f64 0 = 0"
  by (simp add: f64_def)

lemma f64_recip_pow2:
  assumes "k \<le> 1022"
  shows "f64 (1 / 2 ^ k) = 1 / 2 ^ k"
proof -
  have "(1 :: rat) / 2 ^ k = of_int (2 ^ 52) * pow2 (- int k - 52)"
  proof -
    have "pow2 (- int k - 52) = pow2 (- int k) * pow2 (- 52)"
      using pow2_add [of "- int k" "- 52"] by simp
    also have "pow2 (- int k) = 1 / 2 ^ k" by (simp add: pow2_def)
    also have "pow2 (- 52) = 1 / 2 ^ 52" by (simp add: pow2_def)
    finally show ?thesis by simp
  qed
  moreover have "\<bar>(2 :: int) ^ 52\<bar> \<le> 2 ^ 53" by simp
  moreover have "- 1022 \<le> - int k" using assms by simp
  ultimately show ?thesis by (rule f64_representable)
qed

lemma roundHalfEven_minus: "roundHalfEven (- r) = - roundHalfEven r"
proof (cases "r = of_int \<lfloor>r\<rfloor>")
  case True
  then obtain k where "r = of_int k" ..
  then show ?thesis
    using roundHalfEven_int [of k] roundHalfEven_int [of "- k"] by simp
next
  case False
  have fl: "of_int \<lfloor>r\<rfloor> < r" using False floor_less_iff [of r "\<lfloor>r\<rfloor> + 1"]
    by (metis floor_correct less_eq_rat_def)
  have "\<lfloor>- r\<rfloor> = - \<lfloor>r\<rfloor> - 1"
  proof (rule floor_unique)
    show "of_int (- \<lfloor>r\<rfloor> - 1) \<le> - r" using floor_correct [of r] by simp
    show "- r < of_int (- \<lfloor>r\<rfloor> - 1) + 1" using fl by simp
  qed
  then show ?thesis
    using fl by (auto simp add: roundHalfEven_def Let_def)
qed

lemma f64_minus: "f64 (- q) = - f64 q"
  by (simp add: f64_def Let_def roundHalfEven_minus)

text \<open>
  The narrowing to \<open>float32\<close> keeps 0 and 1, commutes with negation and is monotone.
\<close>

lemma f32_zero: "f32 0 = 0"
  by (simp add: f32_def)

lemma f32_one: "f32 1 = 1"
  by code_simp

lemma f32_minus: "f32 (- q) = - f32 q"
  by (simp add: f32_def Let_def roundHalfEven_minus)

lemma roundHalfEven_mono: "r \<le> s \<Longrightarrow> roundHalfEven r \<le> roundHalfEven s"
proof -
  assume rs: "r \<le> s"
  have lo: "\<And>x. \<lfloor>x\<rfloor> \<le> roundHalfEven x" and hi: "\<And>x. roundHalfEven x \<le> \<lfloor>x\<rfloor> + 1"
    by (simp_all add: roundHalfEven_def Let_def)
  from rs have fl: "\<lfloor>r\<rfloor> \<le> \<lfloor>s\<rfloor>" by (rule floor_mono)
  show ?thesis
  proof (cases "\<lfloor>r\<rfloor> = \<lfloor>s\<rfloor>")
    case True
    with rs show ?thesis by (auto simp add: roundHalfEven_def Let_def)
  next
    case False
    with fl have "\<lfloor>r\<rfloor> + 1 \<le> \<lfloor>s\<rfloor>" by simp
    with hi [of r] lo [of s] show ?thesis by linarith
  qed
qed

lemma ilog2_mono:
  assumes "0 < a" and "a \<le> b"
  shows "ilog2 a \<le> ilog2 b"
proof -
  from assms have b: "0 < b" by simp
  from ilog2_bounds [OF assms(1)] have "pow2 (ilog2 a) \<le> a" by simp
  also note assms(2)
  also from ilog2_bounds [OF b] have "b < pow2 (ilog2 b + 1)" by simp
  finally have "pow2 (ilog2 a) < pow2 (ilog2 b + 1)" .
  then have "\<not> pow2 (ilog2 b + 1) \<le> pow2 (ilog2 a)" by simp
  then have "\<not> ilog2 b + 1 \<le> ilog2 a" using pow2_mono by blast
  then show ?thesis by simp
qed

lemma f32_pos_form:
  assumes "0 < q"
  shows "f32 q = of_int (roundHalfEven (q / pow2 (max (ilog2 q) (- 126) - 23))) *
           pow2 (max (ilog2 q) (- 126) - 23)"
  using assms by (simp add: f32_def Let_def)

lemma pow2_split24: "pow2 (e + 1) = of_int (2 ^ 24) * pow2 (e - 23)"
proof -
  have "24 + (e - 23) = e + 1" by simp
  then have "pow2 (e + 1) = pow2 24 * pow2 (e - 23)" by (simp only: pow2_add [symmetric])
  then show ?thesis by (simp add: pow2_def)
qed

lemma pow2_split23: "pow2 e = of_int (2 ^ 23) * pow2 (e - 23)"
proof -
  have "23 + (e - 23) = e" by simp
  then have "pow2 e = pow2 23 * pow2 (e - 23)" by (simp only: pow2_add [symmetric])
  then show ?thesis by (simp add: pow2_def)
qed

lemma f32_upper:
  assumes "0 < q"
  shows "f32 q \<le> pow2 (max (ilog2 q) (- 126) + 1)"
proof -
  define e where "e = max (ilog2 q) (- 126)"
  define u where "u = pow2 (e - 23)"
  have upos: "0 < u" by (simp add: u_def pow2_pos)
  have "ilog2 q + 1 \<le> e + 1" by (simp add: e_def)
  then have "pow2 (ilog2 q + 1) \<le> pow2 (e + 1)" by (rule pow2_mono)
  with ilog2_bounds [OF assms] have "q \<le> pow2 (e + 1)" by simp
  then have "q \<le> of_int (2 ^ 24) * u" by (simp only: pow2_split24 u_def)
  then have "q / u \<le> of_int (2 ^ 24)" using upos by (simp add: pos_divide_le_eq)
  then have "roundHalfEven (q / u) \<le> roundHalfEven (of_int (2 ^ 24))" by (rule roundHalfEven_mono)
  then have "roundHalfEven (q / u) \<le> 2 ^ 24" by (simp only: roundHalfEven_int)
  then have "(of_int (roundHalfEven (q / u)) :: rat) \<le> of_int (2 ^ 24)" by (simp only: of_int_le_iff)
  then have "of_int (roundHalfEven (q / u)) * u \<le> of_int (2 ^ 24) * u"
    using upos by (simp only: mult_le_cancel_right_pos)
  moreover have "f32 q = of_int (roundHalfEven (q / u)) * u"
    using f32_pos_form [OF assms] by (simp add: u_def e_def)
  moreover have "pow2 (max (ilog2 q) (- 126) + 1) = of_int (2 ^ 24) * u"
    using pow2_split24 [of e] by (simp add: u_def e_def)
  ultimately show ?thesis by simp
qed

lemma f32_lower:
  assumes "0 < q" and "- 126 \<le> ilog2 q"
  shows "pow2 (ilog2 q) \<le> f32 q"
proof -
  define e where "e = ilog2 q"
  define u where "u = pow2 (e - 23)"
  have upos: "0 < u" by (simp add: u_def pow2_pos)
  from assms(2) have m: "max (ilog2 q) (- 126) = e" by (simp add: e_def)
  from ilog2_bounds [OF assms(1)] have "pow2 e \<le> q" by (simp add: e_def)
  then have "of_int (2 ^ 23) * u \<le> q" by (simp only: pow2_split23 [of e] u_def)
  then have "of_int (2 ^ 23) \<le> q / u" using upos by (simp add: pos_le_divide_eq)
  then have "roundHalfEven (of_int (2 ^ 23)) \<le> roundHalfEven (q / u)" by (rule roundHalfEven_mono)
  then have "2 ^ 23 \<le> roundHalfEven (q / u)" by (simp only: roundHalfEven_int)
  then have "(of_int (2 ^ 23) :: rat) \<le> of_int (roundHalfEven (q / u))" by (simp only: of_int_le_iff)
  then have "of_int (2 ^ 23) * u \<le> of_int (roundHalfEven (q / u)) * u"
    using upos by (simp only: mult_le_cancel_right_pos)
  moreover have "f32 q = of_int (roundHalfEven (q / u)) * u"
    using f32_pos_form [OF assms(1)] assms(2) by (simp add: u_def e_def)
  moreover have "pow2 (ilog2 q) = of_int (2 ^ 23) * u"
    using pow2_split23 [of e] by (simp add: u_def e_def)
  ultimately show ?thesis by simp
qed

lemma f32_nonneg: "0 \<le> q \<Longrightarrow> 0 \<le> f32 q"
proof -
  assume q: "0 \<le> q"
  have "\<And>r :: rat. 0 \<le> r \<Longrightarrow> 0 \<le> roundHalfEven r"
    using roundHalfEven_mono [of 0] roundHalfEven_int [of 0] by simp
  then have "0 \<le> roundHalfEven (q / pow2 (max (ilog2 \<bar>q\<bar>) (- 126) - 23))"
    using q pow2_pos [of "max (ilog2 \<bar>q\<bar>) (- 126) - 23"] by (simp add: zero_le_divide_iff)
  then show ?thesis
    using pow2_pos [of "max (ilog2 \<bar>q\<bar>) (- 126) - 23"]
    by (simp add: f32_def Let_def zero_le_mult_iff)
qed

lemma f32_mono_pos:
  assumes "0 < a" and "a \<le> b"
  shows "f32 a \<le> f32 b"
proof -
  from assms have b: "0 < b" by simp
  define ea where "ea = max (ilog2 a) (- 126)"
  define eb where "eb = max (ilog2 b) (- 126)"
  from ilog2_mono [OF assms] have le: "ea \<le> eb" by (simp add: ea_def eb_def)
  show ?thesis
  proof (cases "ea = eb")
    case True
    define u where "u = pow2 (ea - 23)"
    have upos: "0 < u" by (simp add: u_def pow2_pos)
    from assms(2) upos have "a / u \<le> b / u" by (simp add: divide_right_mono)
    then have "roundHalfEven (a / u) \<le> roundHalfEven (b / u)" by (rule roundHalfEven_mono)
    then have "(of_int (roundHalfEven (a / u)) :: rat) \<le> of_int (roundHalfEven (b / u))"
      by (simp only: of_int_le_iff)
    then have "of_int (roundHalfEven (a / u)) * u \<le> of_int (roundHalfEven (b / u)) * u"
      using upos by (simp only: mult_le_cancel_right_pos)
    moreover have "f32 a = of_int (roundHalfEven (a / u)) * u"
      using f32_pos_form [OF assms(1)] by (simp add: u_def ea_def)
    moreover have "f32 b = of_int (roundHalfEven (b / u)) * u"
      using f32_pos_form [OF b] True by (simp add: u_def ea_def eb_def)
    ultimately show ?thesis by simp
  next
    case False
    with le have lt: "ea + 1 \<le> eb" by simp
    have "- 126 \<le> ea" by (simp add: ea_def)
    with lt have "- 126 < eb" by simp
    then have eb': "eb = ilog2 b" and ge: "- 126 \<le> ilog2 b" by (simp_all add: eb_def max_def split: if_splits)
    have "f32 a \<le> pow2 (ea + 1)" unfolding ea_def using assms(1) by (rule f32_upper)
    also have "\<dots> \<le> pow2 eb" using lt by (rule pow2_mono)
    also have "\<dots> \<le> f32 b" unfolding eb' using b ge by (rule f32_lower)
    finally show ?thesis .
  qed
qed

lemma f32_mono: "a \<le> b \<Longrightarrow> f32 a \<le> f32 b"
proof -
  assume ab: "a \<le> b"
  consider "0 < a" | "a \<le> 0" "0 \<le> b" | "b < 0" by linarith
  then show ?thesis
  proof cases
    case 1
    then show ?thesis using ab by (rule f32_mono_pos)
  next
    case 2
    from 2(1) have "0 \<le> f32 (- a)" by (simp add: f32_nonneg)
    then have "f32 a \<le> 0" by (simp add: f32_minus)
    also from 2(2) have "0 \<le> f32 b" by (rule f32_nonneg)
    finally show ?thesis .
  next
    case 3
    then have "0 < - b" and "- b \<le> - a" using ab by simp_all
    then have "f32 (- b) \<le> f32 (- a)" by (rule f32_mono_pos)
    then show ?thesis by (simp add: f32_minus)
  qed
qed

lemma f32_flag: "f32 (if c then 0 else 1) = (if c then 0 else 1)"
  by (simp add: f32_zero f32_one)

section \<open>Colour conversion: channel order and round trip\<close>

lemma ff_mask: "(255 :: 'a::len word) = mask 8"
  by (simp add: mask_eq_exp_minus_1)

lemma unat_low_byte: "unat (ucast ((w :: 32 word) AND 255) :: 8 word) = unat w mod 256"
  apply (simp add: ff_mask flip: take_bit_eq_mask)
  apply (simp add: unsigned_ucast_eq unsigned_take_bit_eq take_bit_eq_mod unat_mod_distrib)
  done

lemma unat_top_byte: "unat (c :: 32 word) div 16777216 < 256"
  using unsigned_less [of c, where 'a = nat] by simp

lemma channels_of_packed:
  "unat (A (imguiColorToPixelColor c)) = unat c div 2 ^ 24"
  "unat (B (imguiColorToPixelColor c)) = (unat c div 2 ^ 16) mod 256"
  "unat (G (imguiColorToPixelColor c)) = (unat c div 2 ^ 8) mod 256"
  "unat (R (imguiColorToPixelColor c)) = unat c mod 256"
  by (simp_all add: imguiColorToPixelColor_def unat_low_byte unat_drop_bit_eq drop_bit_eq_div
      unat_div_distrib unat_top_byte)

lemma repack_inverse: "spec_packABGR (imguiColorToPixelColor c) = c"
  apply (simp add: imguiColorToPixelColor_def spec_packABGR_def ff_mask flip: take_bit_eq_mask)
  apply (rule bit_word_eqI)
  apply (auto simp add: bit_simps)
   apply (case_tac "16 \<le> n"; simp)
  apply (case_tac "16 \<le> n"; case_tac "24 \<le> n"; simp)
  done

text \<open>
  Claim C4. The highest byte of the packed colour is the alpha channel, the next the blue,
  then the green, and the lowest byte the red channel; packing the four channels again in
  that order gives the packed colour back.
\<close>

theorem imguiColorToPixelColor_abgr_roundtrip:
  "unat (A (imguiColorToPixelColor c)) = unat c div 2 ^ 24 \<and>
   unat (B (imguiColorToPixelColor c)) = (unat c div 2 ^ 16) mod 256 \<and>
   unat (G (imguiColorToPixelColor c)) = (unat c div 2 ^ 8) mod 256 \<and>
   unat (R (imguiColorToPixelColor c)) = unat c mod 256 \<and>
   spec_packABGR (imguiColorToPixelColor c) = c"
  by (simp only: channels_of_packed repack_inverse)

section \<open>The input forwarder: the button callback and the scroll query\<close>

lemma sint_sub_512:
  fixes w :: "32 word"
  assumes "512 \<le> sint w"
  shows "sint (w - 512) = sint w - 512"
proof -
  have "sint w < 2 ^ 31" using sint_lt [of w] by simp
  then show ?thesis using assms
    by (simp add: sint_word_ariths signed_take_bit_int_eq_self)
qed

lemma sint_ucast_add8:
  fixes b :: "64 word"
  assumes "0 \<le> sint b + 8" and "sint b + 8 < 2 ^ 31"
  shows "sint (ucast (b + 8) :: 32 word) = sint b + 8"
proof -
  have lt: "sint b < 2 ^ 63" using sint_lt [of b] by simp
  have s: "sint (b + 8) = sint b + 8"
    using assms lt by (simp add: sint_word_ariths signed_take_bit_int_eq_self)
  have "uint (b + 8) = take_bit 64 (sint (b + 8))"
    by (simp add: uint_sint)
  also have "\<dots> = sint b + 8"
    using assms s by (simp add: take_bit_int_eq_self)
  finally have u: "uint (b + 8) = sint b + 8" .
  have "uint (ucast (b + 8) :: 32 word) = take_bit 32 (uint (b + 8))"
    by (simp add: unsigned_ucast_eq)
  also have "\<dots> = sint b + 8"
    using assms u by (simp add: take_bit_int_eq_self)
  finally have v: "uint (ucast (b + 8) :: 32 word) = sint b + 8" .
  have "sint (ucast (b + 8) :: 32 word) = signed_take_bit 31 (uint (ucast (b + 8) :: 32 word))"
    by (simp add: sint_uint)
  also have "\<dots> = sint b + 8"
    using assms v by (simp add: signed_take_bit_int_eq_self)
  finally show ?thesis .
qed

lemma keyMap_entry:
  assumes "distinct (map (\<lambda>(h, g). pk h) keyTable)" and "(h, g) \<in> set keyTable"
  shows "keyMap pk ik (pk h) = Some (ik g)"
proof -
  from assms(1) have "distinct (map fst (map (\<lambda>(h, g). (pk h, ik g)) keyTable))"
    by (simp add: case_prod_unfold comp_def)
  moreover from assms(2) have "(pk h, ik g) \<in> set (map (\<lambda>(h, g). (pk h, ik g)) keyTable)"
    by force
  ultimately show ?thesis unfolding keyMap_def by (rule map_of_is_SomeI)
qed

lemma keyMap_None:
  "keyMap pk ik b = None \<longleftrightarrow> b \<notin> (\<lambda>(h, g). pk h) ` set keyTable"
  by (auto simp add: keyMap_def map_of_eq_None_iff image_iff case_prod_unfold)

lemma buttonCallback_mapped:
  assumes kb: "isKeyboardButton (pk h)"
    and dist: "distinct (map (\<lambda>(h, g). pk h) keyTable)"
    and ent: "(h, g) \<in> set keyTable"
    and lo: "512 \<le> sint (ik g)"
    and hi: "sint (ik g) - 512 < int (length (KeysData (io ui)))"
  shows "buttonCallback isKeyboardButton pk ik ui (pk h) Press =
           Inr (spec_keyDown ui (nat (sint (ik g) - 512)) True) \<and>
         buttonCallback isKeyboardButton pk ik ui (pk h) Release =
           Inr (spec_keyDown ui (nat (sint (ik g) - 512)) False)"
  using kb lo hi
  by (simp add: buttonCallback_def keyMap_entry [OF dist ent] setDownAt_def sint_sub_512
      spec_keyDown_def Let_def)

lemma buttonCallback_unmapped:
  assumes kb: "isKeyboardButton b"
    and un: "b \<notin> (\<lambda>(h, g). pk h) ` set keyTable"
    and lo: "0 \<le> sint b + 8"
    and hi: "sint b + 8 < int (length (KeysData (io ui)))"
    and len: "length (KeysData (io ui)) \<le> 2 ^ 31"
  shows "buttonCallback isKeyboardButton pk ik ui b Press =
           Inr (spec_keyDown ui (nat (sint b + 8)) True) \<and>
         buttonCallback isKeyboardButton pk ik ui b Release =
           Inr (spec_keyDown ui (nat (sint b + 8)) False)"
proof -
  from hi len have "sint b + 8 < 2 ^ 31" by simp
  with lo have s: "sint (ucast (b + 8) :: 32 word) = sint b + 8" by (rule sint_ucast_add8)
  from un have n: "keyMap pk ik b = None" by (simp add: keyMap_None)
  show ?thesis
    using kb lo hi by (simp add: buttonCallback_def n s setDownAt_def spec_keyDown_def Let_def)
qed

text \<open>
  Claim C6. A press or release of a keyboard button that the table maps to a named key sets
  the down-state of that key's entry (the key's number less 512, the first named key) to
  true or false and changes nothing else; a press or release of a keyboard button outside the
  table does the same to the entry at the button code plus 8. The host codes of the table
  are pairwise distinct (Go rejects a map literal with a repeated key) and the entry lies
  within the table (an index outside it would panic).
\<close>

theorem buttonCallback_key_event:
  assumes "isKeyboardButton button"
    and "distinct (map (\<lambda>(h, g). pk h) keyTable)"
    and "length (KeysData (io ui)) \<le> 2 ^ 31"
  shows
    "(\<forall>h g. (h, g) \<in> set keyTable \<and> button = pk h \<and> 512 \<le> sint (ik g) \<and>
        sint (ik g) - 512 < int (length (KeysData (io ui))) \<longrightarrow>
        buttonCallback isKeyboardButton pk ik ui button Press =
          Inr (spec_keyDown ui (nat (sint (ik g) - 512)) True) \<and>
        buttonCallback isKeyboardButton pk ik ui button Release =
          Inr (spec_keyDown ui (nat (sint (ik g) - 512)) False)) \<and>
     (button \<notin> (\<lambda>(h, g). pk h) ` set keyTable \<and> 0 \<le> sint button + 8 \<and>
        sint button + 8 < int (length (KeysData (io ui))) \<longrightarrow>
        buttonCallback isKeyboardButton pk ik ui button Press =
          Inr (spec_keyDown ui (nat (sint button + 8)) True) \<and>
        buttonCallback isKeyboardButton pk ik ui button Release =
          Inr (spec_keyDown ui (nat (sint button + 8)) False))"
proof (intro conjI allI impI)
  fix h g
  assume a: "(h, g) \<in> set keyTable \<and> button = pk h \<and> 512 \<le> sint (ik g) \<and>
    sint (ik g) - 512 < int (length (KeysData (io ui)))"
  with assms(1) have kb: "isKeyboardButton (pk h)" by simp
  from a have ent: "(h, g) \<in> set keyTable" and lo: "512 \<le> sint (ik g)"
    and hi: "sint (ik g) - 512 < int (length (KeysData (io ui)))" and b: "button = pk h"
    by simp_all
  note m = buttonCallback_mapped [where isKeyboardButton = isKeyboardButton and pk = pk
      and ik = ik and h = h and g = g and ui = ui, OF kb assms(2) ent lo hi]
  from m b show "buttonCallback isKeyboardButton pk ik ui button Press =
      Inr (spec_keyDown ui (nat (sint (ik g) - 512)) True)" by simp
  from m b show "buttonCallback isKeyboardButton pk ik ui button Release =
      Inr (spec_keyDown ui (nat (sint (ik g) - 512)) False)" by simp
next
  assume a: "button \<notin> (\<lambda>(h, g). pk h) ` set keyTable \<and> 0 \<le> sint button + 8 \<and>
    sint button + 8 < int (length (KeysData (io ui)))"
  then have un: "button \<notin> (\<lambda>(h, g). pk h) ` set keyTable" and lo: "0 \<le> sint button + 8"
    and hi: "sint button + 8 < int (length (KeysData (io ui)))" by simp_all
  note u = buttonCallback_unmapped [where isKeyboardButton = isKeyboardButton and pk = pk
      and ik = ik and b = button and ui = ui, OF assms(1) un lo hi assms(3)]
  from u show "buttonCallback isKeyboardButton pk ik ui button Press =
      Inr (spec_keyDown ui (nat (sint button + 8)) True)" by simp
  from u show "buttonCallback isKeyboardButton pk ik ui button Release =
      Inr (spec_keyDown ui (nat (sint button + 8)) False)" by simp
qed

lemma ex_codes_distinct: "distinct (map (\<lambda>(h, g). ex_pk h) keyTable)"
  by (simp add: keyTable_def)

lemma ex_table_length: "length (KeysData (io ex_ui)) = 155"
  by (simp add: ex_ui_def)

text \<open>
  The theorem at the Tab key (code 258, named key 512, entry 0) and at the B key (code 66,
  not in the table, entry 74) of the example numbering.
\<close>

theorem buttonCallback_key_event_witness:
  "ex_isKeyboardButton 258 \<and> ex_isKeyboardButton 66 \<and>
   distinct (map (\<lambda>(h, g). ex_pk h) keyTable) \<and>
   (pixel_KeyTab, imgui_KeyTab) \<in> set keyTable \<and>
   (66 :: 64 word) \<notin> (\<lambda>(h, g). ex_pk h) ` set keyTable \<and>
   buttonCallback ex_isKeyboardButton ex_pk ex_ik ex_ui 258 Press = Inr (spec_keyDown ex_ui 0 True) \<and>
   buttonCallback ex_isKeyboardButton ex_pk ex_ik ex_ui 258 Release = Inr (spec_keyDown ex_ui 0 False) \<and>
   buttonCallback ex_isKeyboardButton ex_pk ex_ik ex_ui 66 Press = Inr (spec_keyDown ex_ui 74 True) \<and>
   buttonCallback ex_isKeyboardButton ex_pk ex_ik ex_ui 66 Release = Inr (spec_keyDown ex_ui 74 False)"
proof -
  have kb1: "ex_isKeyboardButton 258" and kb2: "ex_isKeyboardButton 66"
    by (simp_all add: ex_isKeyboardButton_def)
  have len: "length (KeysData (io ex_ui)) \<le> 2 ^ 31"
    by (simp add: ex_table_length)
  have ent: "(pixel_KeyTab, imgui_KeyTab) \<in> set keyTable"
    by (simp add: keyTable_def)
  have un: "(66 :: 64 word) \<notin> (\<lambda>(h, g). ex_pk h) ` set keyTable"
    by (simp add: keyTable_def)
  from buttonCallback_key_event [where isKeyboardButton = ex_isKeyboardButton and pk = ex_pk
      and ik = ex_ik and ui = ex_ui and button = 258, OF kb1 ex_codes_distinct len,
      THEN conjunct1, rule_format, of pixel_KeyTab imgui_KeyTab] ent
  have "buttonCallback ex_isKeyboardButton ex_pk ex_ik ex_ui 258 Press =
          Inr (spec_keyDown ex_ui (nat (sint (ex_ik imgui_KeyTab) - 512)) True) \<and>
        buttonCallback ex_isKeyboardButton ex_pk ex_ik ex_ui 258 Release =
          Inr (spec_keyDown ex_ui (nat (sint (ex_ik imgui_KeyTab) - 512)) False)"
    by (simp add: ex_table_length)
  then have t: "buttonCallback ex_isKeyboardButton ex_pk ex_ik ex_ui 258 Press =
          Inr (spec_keyDown ex_ui 0 True) \<and>
        buttonCallback ex_isKeyboardButton ex_pk ex_ik ex_ui 258 Release =
          Inr (spec_keyDown ex_ui 0 False)"
    by simp
  from buttonCallback_key_event [where isKeyboardButton = ex_isKeyboardButton and pk = ex_pk
      and ik = ex_ik and ui = ex_ui and button = 66, OF kb2 ex_codes_distinct len,
      THEN conjunct2, rule_format] un
  have b: "buttonCallback ex_isKeyboardButton ex_pk ex_ik ex_ui 66 Press =
          Inr (spec_keyDown ex_ui 74 True) \<and>
        buttonCallback ex_isKeyboardButton ex_pk ex_ik ex_ui 66 Release =
          Inr (spec_keyDown ex_ui 74 False)"
    by (simp add: ex_table_length)
  from kb1 kb2 ex_codes_distinct ent un t b show ?thesis by simp
qed

text \<open>
  Claim C10. An event of a button that is not a keyboard button returns at once: the UI,
  and with it the key-state table, is what it was.
\<close>

theorem buttonCallback_not_keyboard:
  "\<not> isKeyboardButton button \<Longrightarrow>
     buttonCallback isKeyboardButton pk ik ui button action = Inr ui"
  by (simp add: buttonCallback_def)

text \<open>The theorem at the left mouse button (code 0) of the example numbering.\<close>

theorem buttonCallback_not_keyboard_witness:
  "\<not> ex_isKeyboardButton 0 \<and>
   buttonCallback ex_isKeyboardButton ex_pk ex_ik ex_ui 0 Press = Inr ex_ui"
proof -
  have h: "\<not> ex_isKeyboardButton 0" by (simp add: ex_isKeyboardButton_def)
  from h buttonCallback_not_keyboard [where isKeyboardButton = ex_isKeyboardButton
      and button = 0 and pk = ex_pk and ik = ex_ik and ui = ex_ui and action = Press]
  show ?thesis by simp
qed

text \<open>
  Claim C7. When the GUI library wants the mouse the scroll query returns the zero vector;
  otherwise it returns the window's raw scroll value.
\<close>

theorem MouseScroll_capture:
  "(WantCaptureMouse (io ui) \<longrightarrow> MouseScroll ui = \<lparr> X = 0, Y = 0 \<rparr>) \<and>
   (\<not> WantCaptureMouse (io ui) \<longrightarrow> MouseScroll ui = WinMouseScroll (win ui))"
  by (simp add: MouseScroll_def pixel_ZV_def pixel_V_def)

text \<open>
  The theorem on the example UI, whose window has scrolled by \<open>(0, 3)\<close>, with and without
  the capture flag.
\<close>

theorem MouseScroll_capture_witness:
  "MouseScroll (ex_ui\<lparr> io := (io ex_ui)\<lparr> WantCaptureMouse := True \<rparr> \<rparr>) = \<lparr> X = 0, Y = 0 \<rparr> \<and>
   MouseScroll ex_ui = \<lparr> X = 0, Y = 3 \<rparr>"
proof -
  have c: "WantCaptureMouse (io (ex_ui\<lparr> io := (io ex_ui)\<lparr> WantCaptureMouse := True \<rparr> \<rparr>))"
    by simp
  have n: "\<not> WantCaptureMouse (io ex_ui)" by (simp add: ex_ui_def)
  have w: "WinMouseScroll (win ex_ui) = \<lparr> X = 0, Y = 3 \<rparr>" by (simp add: ex_ui_def pixel_V_def)
  from MouseScroll_capture [of "ex_ui\<lparr> io := (io ex_ui)\<lparr> WantCaptureMouse := True \<rparr> \<rparr>"] c
  have a: "MouseScroll (ex_ui\<lparr> io := (io ex_ui)\<lparr> WantCaptureMouse := True \<rparr> \<rparr>) = \<lparr> X = 0, Y = 0 \<rparr>"
    by blast
  from MouseScroll_capture [of ex_ui] n w have b: "MouseScroll ex_ui = \<lparr> X = 0, Y = 3 \<rparr>"
    by simp
  from a b show ?thesis by simp
qed

section \<open>The frame translator: what the loops write\<close>

lemma GLVertex_overwrite:
  "v\<lparr> position := p, picture := t, intensity := i, color := c, clipRect := r \<rparr> =
     \<lparr> position = p, color = c, picture = t, intensity = i, clipRect = r \<rparr>"
  by (cases v) simp

lemma setVertex_Inr:
  assumes "setVertex k p t i c r tris = Inr tris1"
  shows "k < length tris \<and>
         tris1 = tris[k := \<lparr> position = narrowVec p, color = narrowRGBA c,
                   picture = narrowVec t, intensity = f32 i, clipRect = narrowRect r \<rparr>]"
  using assms
  by (auto simp add: setVertex_def SetPosition_def SetPicture_def SetColor_def SetClipRect_def
      GLVertex_overwrite split: if_splits)

lemma vertexLoop_Inr:
  assumes "vertexLoop cmds texRect intens clip iStart count i off ui = Inr (off1, ui1)"
  shows "off1 = off + (count - i) \<and>
         ui1 = ui\<lparr> shaderTris := shaderTris ui1 \<rparr> \<and>
         length (shaderTris ui1) = length (shaderTris ui) \<and>
         (\<forall>j. j < iStart + i \<or> iStart + count \<le> j \<longrightarrow> shaderTris ui1 ! j = shaderTris ui ! j) \<and>
         (\<forall>j. i \<le> j \<and> j < count \<longrightarrow>
            iStart + j < length (shaderTris ui) \<and>
            intensity (shaderTris ui1 ! (iStart + j)) = f32 intens \<and>
            clipRect (shaderTris ui1 ! (iStart + j)) = narrowRect clip)"
  using assms
proof (induction cmds texRect intens clip iStart count i off ui rule: vertexLoop.induct)
  case (1 cmds texRect intens clip iStart count i off ui)
  show ?case
  proof (cases "i < count")
    case False
    with "1.prems" show ?thesis by (simp add: vertexLoop.simps [of _ _ _ _ _ count i])
  next
    case True
    from "1.prems" True obtain index v uuvv tris where
      ri: "readIndex cmds off = Inr index" and
      rv: "readVertex cmds index = Inr v" and
      cd: "calcData ui texRect (PV (uv v)) = Inr uuvv" and
      sv: "setVertex (iStart + i) (PV (pos v)) uuvv intens
             (pixel_ToRGBA (imguiColorToPixelColor (col v))) clip (shaderTris ui) = Inr tris" and
      rec: "vertexLoop cmds texRect intens clip iStart count (i + 1) (off + 1)
              (ui\<lparr> shaderTris := tris \<rparr>) = Inr (off1, ui1)"
      by (subst (asm) vertexLoop.simps) (simp split: sum.splits)
    from setVertex_Inr [OF sv] have k: "iStart + i < length (shaderTris ui)"
      and t: "tris = (shaderTris ui)[iStart + i := \<lparr> position = narrowVec (PV (pos v)),
                color = narrowRGBA (pixel_ToRGBA (imguiColorToPixelColor (col v))),
                picture = narrowVec uuvv, intensity = f32 intens, clipRect = narrowRect clip \<rparr>]"
      by simp_all
    note ih = "1.IH" [OF True ri rv cd sv rec]
    from ih have o: "off1 = off + (count - i)" using True by simp
    from ih have u: "ui1 = ui\<lparr> shaderTris := shaderTris ui1 \<rparr>"
      by simp
    from ih have l1: "length (shaderTris ui1) = length tris" by simp
    with t have l: "length (shaderTris ui1) = length (shaderTris ui)" by simp
    from ih have ihf: "\<And>j. j < iStart + (i + 1) \<or> iStart + count \<le> j \<Longrightarrow>
        shaderTris ui1 ! j = tris ! j"
      by auto
    from ih have ihn: "\<And>j. i + 1 \<le> j \<and> j < count \<Longrightarrow>
        intensity (shaderTris ui1 ! (iStart + j)) = f32 intens \<and>
        clipRect (shaderTris ui1 ! (iStart + j)) = narrowRect clip"
      by auto
    from ih t have ihk: "\<And>j. i + 1 \<le> j \<and> j < count \<Longrightarrow> iStart + j < length (shaderTris ui)"
      by auto
    have f: "\<forall>j. j < iStart + i \<or> iStart + count \<le> j \<longrightarrow> shaderTris ui1 ! j = shaderTris ui ! j"
    proof (intro allI impI)
      fix j assume j: "j < iStart + i \<or> iStart + count \<le> j"
      with True have "j < iStart + (i + 1) \<or> iStart + count \<le> j" by auto
      then have "shaderTris ui1 ! j = tris ! j" by (rule ihf)
      moreover from j True have "j \<noteq> iStart + i" by auto
      ultimately show "shaderTris ui1 ! j = shaderTris ui ! j" using t by simp
    qed
    have n: "\<forall>j. i \<le> j \<and> j < count \<longrightarrow>
            iStart + j < length (shaderTris ui) \<and>
            intensity (shaderTris ui1 ! (iStart + j)) = f32 intens \<and>
            clipRect (shaderTris ui1 ! (iStart + j)) = narrowRect clip"
    proof (intro allI impI)
      fix j assume j: "i \<le> j \<and> j < count"
      show "iStart + j < length (shaderTris ui) \<and>
            intensity (shaderTris ui1 ! (iStart + j)) = f32 intens \<and>
            clipRect (shaderTris ui1 ! (iStart + j)) = narrowRect clip"
      proof (cases "j = i")
        case True
        have "shaderTris ui1 ! (iStart + i) = tris ! (iStart + i)" by (rule ihf) simp
        with t k True show ?thesis by simp
      next
        case False
        with j have "i + 1 \<le> j \<and> j < count" by simp
        with ihn [of j] ihk [of j] show ?thesis by simp
      qed
    qed
    from o u l f n show ?thesis by blast
  qed
qed

lemma SetLen_grow:
  "length tris < n \<Longrightarrow> length (SetLen n tris) = n \<and> (\<forall>j < length tris. SetLen n tris ! j = tris ! j)"
  by (simp add: SetLen_def nth_append)

lemma SetLen_cut: "n \<le> length tris \<Longrightarrow> SetLen n tris = take n tris"
  by (simp add: SetLen_def)

lemma grown_frame: "grown ui n = ui\<lparr> shaderTris := shaderTris (grown ui n) \<rparr>"
  by (simp add: grown_def)

lemma grown_length: "n \<le> length (shaderTris (grown ui n))"
  using SetLen_grow [of "shaderTris ui" n] by (simp add: grown_def)

lemma grown_prefix: "j < length (shaderTris ui) \<Longrightarrow> shaderTris (grown ui n) ! j = shaderTris ui ! j"
  using SetLen_grow [of "shaderTris ui" n] by (simp add: grown_def)

lemma drawCmd_callback:
  "HasUserCallback cmd \<Longrightarrow> drawCmd cmds cmd st = Inr st"
  by (simp add: drawCmd_def split: prod.splits)

lemma drawCmd_unfold:
  assumes dc: "drawCmd cmds cmd (tot, off, ui) = Inr (tot1, off1, ui1)"
    and nc: "\<not> HasUserCallback cmd"
  shows "\<exists>texRect. vertexLoop cmds texRect
           (if (ucast (TexID cmd) :: 32 word) = font ui then 0 else 1)
           (clipRectOf (matrix ui) (ClipRect cmd))
           tot (unat (ElemCount cmd)) 0 off (grown ui (tot + unat (ElemCount cmd))) = Inr (off1, ui1)
    \<and> tot1 = tot + unat (ElemCount cmd)"
  using dc nc
  by (auto simp add: drawCmd_def Let_def grown_def
      split: option.splits sum.splits if_splits)

lemma drawCmd_Inr:
  assumes dc: "drawCmd cmds cmd (tot, off, ui) = Inr (tot1, off1, ui1)"
    and nc: "\<not> HasUserCallback cmd"
    and le: "tot \<le> length (shaderTris ui)"
  shows "tot1 = tot + unat (ElemCount cmd) \<and>
         tot1 \<le> length (shaderTris ui1) \<and>
         ui1 = ui\<lparr> shaderTris := shaderTris ui1 \<rparr> \<and>
         (\<forall>j < tot. shaderTris ui1 ! j = shaderTris ui ! j) \<and>
         (\<forall>j < unat (ElemCount cmd). vertexAttrs (shaderTris ui1 ! (tot + j)) = cmdAttrs ui cmd)"
proof -
  from drawCmd_unfold [OF dc nc] obtain texRect where
    vl: "vertexLoop cmds texRect (if (ucast (TexID cmd) :: 32 word) = font ui then 0 else 1)
           (clipRectOf (matrix ui) (ClipRect cmd))
           tot (unat (ElemCount cmd)) 0 off (grown ui (tot + unat (ElemCount cmd))) = Inr (off1, ui1)"
    and t1: "tot1 = tot + unat (ElemCount cmd)"
    by blast
  note v = vertexLoop_Inr [OF vl]
  from v have u1: "ui1 = (grown ui (tot + unat (ElemCount cmd)))\<lparr> shaderTris := shaderTris ui1 \<rparr>"
    by simp
  have a: "ui1 = ui\<lparr> shaderTris := shaderTris ui1 \<rparr>"
    by (subst u1, subst grown_frame) simp
  from v have l1: "length (shaderTris ui1) = length (shaderTris (grown ui (tot + unat (ElemCount cmd))))"
    by simp
  with grown_length [of "tot + unat (ElemCount cmd)" ui] t1
  have l: "tot1 \<le> length (shaderTris ui1)" by simp
  from v have f1: "\<And>j. j < tot \<Longrightarrow>
      shaderTris ui1 ! j = shaderTris (grown ui (tot + unat (ElemCount cmd))) ! j" by auto
  have b: "\<forall>j < tot. shaderTris ui1 ! j = shaderTris ui ! j"
    using f1 grown_prefix [of _ ui "tot + unat (ElemCount cmd)"] le by simp
  from v have n1: "\<And>j. j < unat (ElemCount cmd) \<Longrightarrow>
      intensity (shaderTris ui1 ! (tot + j)) =
        f32 (if (ucast (TexID cmd) :: 32 word) = font ui then 0 else 1) \<and>
      clipRect (shaderTris ui1 ! (tot + j)) = narrowRect (clipRectOf (matrix ui) (ClipRect cmd))"
    by auto
  have c: "\<forall>j < unat (ElemCount cmd). vertexAttrs (shaderTris ui1 ! (tot + j)) = cmdAttrs ui cmd"
    using n1 by (simp add: vertexAttrs_def cmdAttrs_def)
  from t1 l a b c show ?thesis by simp
qed

lemma drawCmd_attrs:
  assumes dc: "drawCmd cmds cmd (tot, off, ui) = Inr (tot1, off1, ui1)"
    and nc: "\<not> HasUserCallback cmd"
    and le: "tot \<le> length (shaderTris ui)"
  shows "map vertexAttrs (take tot1 (shaderTris ui1)) =
           map vertexAttrs (take tot (shaderTris ui)) @
           replicate (unat (ElemCount cmd)) (cmdAttrs ui cmd)"
proof (rule nth_equalityI)
  note d = drawCmd_Inr [OF dc nc le]
  from d le show "length (map vertexAttrs (take tot1 (shaderTris ui1))) =
      length (map vertexAttrs (take tot (shaderTris ui)) @
        replicate (unat (ElemCount cmd)) (cmdAttrs ui cmd))"
    by simp
  fix j assume "j < length (map vertexAttrs (take tot1 (shaderTris ui1)))"
  with d have j: "j < tot + unat (ElemCount cmd)" and j1: "j < tot1" by simp_all
  show "map vertexAttrs (take tot1 (shaderTris ui1)) ! j =
      (map vertexAttrs (take tot (shaderTris ui)) @
        replicate (unat (ElemCount cmd)) (cmdAttrs ui cmd)) ! j"
  proof (cases "j < tot")
    case True
    with d have "shaderTris ui1 ! j = shaderTris ui ! j" by simp
    with True j1 d le show ?thesis by (simp add: nth_append)
  next
    case False
    with j have k: "j - tot < unat (ElemCount cmd)" and e: "tot + (j - tot) = j" by simp_all
    from d k have "vertexAttrs (shaderTris ui1 ! (tot + (j - tot))) = cmdAttrs ui cmd" by blast
    with e have "vertexAttrs (shaderTris ui1 ! j) = cmdAttrs ui cmd" by simp
    with False j1 d le k show ?thesis by (simp add: nth_append)
  qed
qed

lemma cmdAttrs_frame: "cmdAttrs (ui\<lparr> shaderTris := t \<rparr>) = cmdAttrs ui"
  by (rule ext) (simp add: cmdAttrs_def)

lemma commandsLoop_Inr:
  assumes "commandsLoop cmds cs (tot, off, ui) = Inr (tot1, off1, ui1)"
    and "tot \<le> length (shaderTris ui)"
  shows "tot1 \<le> length (shaderTris ui1) \<and>
         ui1 = ui\<lparr> shaderTris := shaderTris ui1 \<rparr> \<and>
         map vertexAttrs (take tot1 (shaderTris ui1)) =
           map vertexAttrs (take tot (shaderTris ui)) @
           concat (map (\<lambda>cmd. replicate (unat (ElemCount cmd)) (cmdAttrs ui cmd))
             (filter (\<lambda>cmd. \<not> HasUserCallback cmd) cs))"
  using assms
proof (induction cs arbitrary: tot off ui)
  case Nil
  then show ?case by simp
next
  case (Cons cmd rest)
  from Cons.prems(1) obtain tot2 off2 ui2 where
    dc: "drawCmd cmds cmd (tot, off, ui) = Inr (tot2, off2, ui2)" and
    cl: "commandsLoop cmds rest (tot2, off2, ui2) = Inr (tot1, off1, ui1)"
    by (auto split: sum.splits)
  show ?case
  proof (cases "HasUserCallback cmd")
    case True
    with dc have "tot2 = tot" "off2 = off" "ui2 = ui" by (simp_all add: drawCmd_callback)
    with cl Cons.IH [of tot off ui] Cons.prems(2) True show ?thesis by simp
  next
    case False
    note d = drawCmd_Inr [OF dc False Cons.prems(2)]
    note a = drawCmd_attrs [OF dc False Cons.prems(2)]
    from d have le2: "tot2 \<le> length (shaderTris ui2)" by simp
    from d have fr2: "ui2 = ui\<lparr> shaderTris := shaderTris ui2 \<rparr>" by simp
    then have ca: "cmdAttrs ui2 = cmdAttrs ui" by (metis cmdAttrs_frame)
    note ih = Cons.IH [OF cl le2]
    from ih have "ui1 = ui2\<lparr> shaderTris := shaderTris ui1 \<rparr>" by simp
    then have fr1: "ui1 = ui\<lparr> shaderTris := shaderTris ui1 \<rparr>"
      by (subst (asm) fr2) simp
    from ih a ca False fr1 show ?thesis by simp
  qed
qed

lemma drawList_Inr:
  assumes "drawList cmds (tot, ui) = Inr (tot1, ui1)"
    and "tot \<le> length (shaderTris ui)"
  shows "tot1 \<le> length (shaderTris ui1) \<and>
         ui1 = ui\<lparr> shaderTris := shaderTris ui1 \<rparr> \<and>
         map vertexAttrs (take tot1 (shaderTris ui1)) =
           map vertexAttrs (take tot (shaderTris ui)) @
           concat (map (\<lambda>cmd. replicate (unat (ElemCount cmd)) (cmdAttrs ui cmd)) (spec_drawn cmds))"
proof -
  from assms(1) obtain off1 where
    "commandsLoop cmds (Commands cmds) (tot, 0, ui) = Inr (tot1, off1, ui1)"
    by (auto simp add: drawList_def split: sum.splits)
  from commandsLoop_Inr [OF this assms(2)] show ?thesis by (simp add: spec_drawn_def)
qed

lemma commandListsLoop_Inr:
  assumes "commandListsLoop data (tot, ui) = Inr (tot1, ui1)"
    and "tot \<le> length (shaderTris ui)"
  shows "tot1 \<le> length (shaderTris ui1) \<and>
         ui1 = ui\<lparr> shaderTris := shaderTris ui1 \<rparr> \<and>
         map vertexAttrs (take tot1 (shaderTris ui1)) =
           map vertexAttrs (take tot (shaderTris ui)) @ spec_perVertex (cmdAttrs ui) data"
  using assms
proof (induction data arbitrary: tot ui)
  case Nil
  then show ?case by (simp add: spec_perVertex_def)
next
  case (Cons cmds rest)
  from Cons.prems(1) obtain tot2 ui2 where
    dl: "drawList cmds (tot, ui) = Inr (tot2, ui2)" and
    cl: "commandListsLoop rest (tot2, ui2) = Inr (tot1, ui1)"
    by (auto split: sum.splits)
  note d = drawList_Inr [OF dl Cons.prems(2)]
  from d have le2: "tot2 \<le> length (shaderTris ui2)" by simp
  from d have fr2: "ui2 = ui\<lparr> shaderTris := shaderTris ui2 \<rparr>" by simp
  then have ca: "cmdAttrs ui2 = cmdAttrs ui" by (metis cmdAttrs_frame)
  note ih = Cons.IH [OF cl le2]
  from ih have "ui1 = ui2\<lparr> shaderTris := shaderTris ui1 \<rparr>" by simp
  then have fr1: "ui1 = ui\<lparr> shaderTris := shaderTris ui1 \<rparr>"
    by (subst (asm) fr2) simp
  from ih d ca fr1 show ?case by (simp add: spec_perVertex_def)
qed

lemma Draw_Inr:
  assumes "Draw ui data = Inr ui1"
  shows "ui1 = (updateMatrix ui)\<lparr> shaderTris := shaderTris ui1 \<rparr> \<and>
         map vertexAttrs (shaderTris ui1) = spec_perVertex (cmdAttrs (updateMatrix ui)) data"
proof -
  from assms obtain tot ui2 where
    cl: "commandListsLoop data (0, updateMatrix ui) = Inr (tot, ui2)" and
    u1: "ui1 = ui2\<lparr> shaderTris := SetLen tot (shaderTris ui2) \<rparr>"
    by (auto simp add: Draw_def Let_def split: sum.splits list.splits)
  have "0 \<le> length (shaderTris (updateMatrix ui))" by simp
  note c = commandListsLoop_Inr [OF cl this]
  from c have le: "tot \<le> length (shaderTris ui2)" by simp
  from c have fr: "ui2 = (updateMatrix ui)\<lparr> shaderTris := shaderTris ui2 \<rparr>" by simp
  from u1 le have s: "shaderTris ui1 = take tot (shaderTris ui2)" by (simp add: SetLen_cut)
  have "ui1 = (updateMatrix ui)\<lparr> shaderTris := shaderTris ui1 \<rparr>"
    by (subst u1, subst fr) (simp add: s u1)
  moreover from c s have "map vertexAttrs (shaderTris ui1) = spec_perVertex (cmdAttrs (updateMatrix ui)) data"
    by simp
  ultimately show ?thesis by simp
qed


lemma map_spec_perVertex: "map g (spec_perVertex f data) = spec_perVertex (\<lambda>cmd. g (f cmd)) data"
  by (simp add: spec_perVertex_def map_concat comp_def)
lemma ex_Draw: "Draw ex_ui ex_data = Inr ex_drawn"
  by code_simp


lemma ex_drawn_tris:
  "shaderTris ex_drawn =
     [ \<lparr> position = pixel_V 10 20, color = \<lparr> Rf = 1, Gf = 0, Bf = 0, Af = 1 \<rparr>,
         picture = pixel_V (1 / 4) (1 / 4), intensity = 1, clipRect = pixel_R 10 380 110 580 \<rparr>,
       \<lparr> position = pixel_V 110 20, color = \<lparr> Rf = 0, Gf = 1, Bf = 0, Af = 1 \<rparr>,
         picture = pixel_V (3 / 4) (1 / 4), intensity = 1, clipRect = pixel_R 10 380 110 580 \<rparr>,
       \<lparr> position = pixel_V 110 220, color = \<lparr> Rf = 0, Gf = 0, Bf = 1, Af = 1 \<rparr>,
         picture = pixel_V (3 / 4) (3 / 4), intensity = 1, clipRect = pixel_R 10 380 110 580 \<rparr>,
       \<lparr> position = pixel_V 110 220, color = \<lparr> Rf = 0, Gf = 0, Bf = 1, Af = 1 \<rparr>,
         picture = pixel_V 1 1, intensity = 0, clipRect = pixel_R 0 600 0 600 \<rparr> ]"
  by (simp add: ex_drawn_def)



text \<open>
  Claim C5. The intensities of the output vertices are, command by command and element by
  element, 0 for a command whose texture id is the glyph texture and 1 for any other; so
  every vertex of the buffer has the intensity 0 or 1.
\<close>

theorem Draw_intensity:
  "Draw ui data = Inr ui1 \<Longrightarrow>
     map intensity (shaderTris ui1) =
       spec_perVertex (\<lambda>cmd. if (ucast (TexID cmd) :: 32 word) = font ui then 0 else 1) data \<and>
     (\<forall>v \<in> set (shaderTris ui1). intensity v = 0 \<or> intensity v = 1)"
proof -
  assume "Draw ui data = Inr ui1"
  from Draw_Inr [OF this]
  have a: "map vertexAttrs (shaderTris ui1) = spec_perVertex (cmdAttrs (updateMatrix ui)) data"
    by simp
  have "map intensity (shaderTris ui1) = map fst (map vertexAttrs (shaderTris ui1))"
    by (simp add: vertexAttrs_def comp_def)
  also have "\<dots> = spec_perVertex (\<lambda>cmd. fst (cmdAttrs (updateMatrix ui) cmd)) data"
    by (simp only: a map_spec_perVertex)
  also have "\<dots> = spec_perVertex (\<lambda>cmd. if (ucast (TexID cmd) :: 32 word) = font ui then 0 else 1) data"
    by (simp add: cmdAttrs_def updateMatrix_def f32_flag)
  finally have e: "map intensity (shaderTris ui1) =
      spec_perVertex (\<lambda>cmd. if (ucast (TexID cmd) :: 32 word) = font ui then 0 else 1) data" .
  have "\<forall>k \<in> set (spec_perVertex
      (\<lambda>cmd. if (ucast (TexID cmd) :: 32 word) = font ui then 0 else (1 :: float64)) data).
      k = 0 \<or> k = 1"
    by (auto simp add: spec_perVertex_def)
  with e have "\<forall>k \<in> set (map intensity (shaderTris ui1)). k = 0 \<or> k = 1" by simp
  then have "\<forall>v \<in> set (shaderTris ui1). intensity v = 0 \<or> intensity v = 1" by simp
  with e show ?thesis by simp
qed

text \<open>
  The theorem on the example frame: three vertices of the texture 2 and one of the glyph
  texture.
\<close>

theorem Draw_intensity_witness:
  "Draw ex_ui ex_data = Inr ex_drawn \<and> font ex_ui = 1 \<and>
   map intensity (shaderTris ex_drawn) = [1, 1, 1, 0] \<and>
   spec_perVertex (\<lambda>cmd. if (ucast (TexID cmd) :: 32 word) = font ex_ui then 0 else 1) ex_data =
     [1, 1, 1, 0 :: float64]"
proof -
  have m: "map intensity (shaderTris ex_drawn) = [1, 1, 1, 0]"
    by (simp add: ex_drawn_tris)
  from Draw_intensity [OF ex_Draw] have "map intensity (shaderTris ex_drawn) =
      spec_perVertex (\<lambda>cmd. if (ucast (TexID cmd) :: 32 word) = font ex_ui then 0 else 1) ex_data"
    by simp
  with m ex_Draw show ?thesis by (simp add: ex_ui_def)
qed

lemma Rect_Norm_ordered:
  "X (MinP (Rect_Norm r)) \<le> X (MaxP (Rect_Norm r)) \<and> Y (MinP (Rect_Norm r)) \<le> Y (MaxP (Rect_Norm r))"
  by (simp add: Rect_Norm_def pixel_V_def min_le_iff_disj le_max_iff_disj)

lemma clipRectOf_ordered:
  "X (MinP (clipRectOf m cr)) \<le> X (MaxP (clipRectOf m cr)) \<and>
   Y (MinP (clipRectOf m cr)) \<le> Y (MaxP (clipRectOf m cr))"
  unfolding clipRectOf_def Let_def by (rule Rect_Norm_ordered)

lemma narrowRect_ordered:
  assumes "X (MinP r) \<le> X (MaxP r) \<and> Y (MinP r) \<le> Y (MaxP r)"
  shows "X (MinP (narrowRect r)) \<le> X (MaxP (narrowRect r)) \<and>
         Y (MinP (narrowRect r)) \<le> Y (MaxP (narrowRect r))"
  using assms by (simp add: narrowRect_def narrowVec_def pixel_V_def f32_mono)

text \<open>
  Claim C8. The clip rectangles of the output vertices are, command by command and element
  by element, the rectangle lines 176 to 179 compute for the command, narrowed to
  \<open>float32\<close> as the buffer holds it, and every one of them is normalised: its minimum
  corner is at most its maximum corner on both axes.
\<close>

theorem Draw_clipRect_normalised:
  "Draw ui data = Inr ui1 \<Longrightarrow>
     map clipRect (shaderTris ui1) =
       spec_perVertex (\<lambda>cmd. narrowRect (clipRectOf (matrix ui1) (ClipRect cmd))) data \<and>
     (\<forall>v \<in> set (shaderTris ui1).
        X (MinP (clipRect v)) \<le> X (MaxP (clipRect v)) \<and>
        Y (MinP (clipRect v)) \<le> Y (MaxP (clipRect v)))"
proof -
  assume "Draw ui data = Inr ui1"
  note d = Draw_Inr [OF this]
  from d have a: "map vertexAttrs (shaderTris ui1) = spec_perVertex (cmdAttrs (updateMatrix ui)) data"
    by simp
  from d have "ui1 = (updateMatrix ui)\<lparr> shaderTris := shaderTris ui1 \<rparr>" by simp
  then have "matrix ui1 = matrix ((updateMatrix ui)\<lparr> shaderTris := shaderTris ui1 \<rparr>)" by simp
  then have m: "matrix ui1 = matrix (updateMatrix ui)" by simp
  have "map clipRect (shaderTris ui1) = map snd (map vertexAttrs (shaderTris ui1))"
    by (simp add: vertexAttrs_def comp_def)
  also have "\<dots> = spec_perVertex (\<lambda>cmd. snd (cmdAttrs (updateMatrix ui) cmd)) data"
    by (simp only: a map_spec_perVertex)
  also have "\<dots> = spec_perVertex (\<lambda>cmd. narrowRect (clipRectOf (matrix ui1) (ClipRect cmd))) data"
    by (simp add: cmdAttrs_def m)
  finally have e: "map clipRect (shaderTris ui1) =
      spec_perVertex (\<lambda>cmd. narrowRect (clipRectOf (matrix ui1) (ClipRect cmd))) data" .
  have "\<forall>r \<in> set (spec_perVertex
      (\<lambda>cmd. narrowRect (clipRectOf (matrix ui1) (ClipRect cmd))) data).
      X (MinP r) \<le> X (MaxP r) \<and> Y (MinP r) \<le> Y (MaxP r)"
    using narrowRect_ordered [OF clipRectOf_ordered]
    by (auto simp add: spec_perVertex_def)
  with e have "\<forall>r \<in> set (map clipRect (shaderTris ui1)).
      X (MinP r) \<le> X (MaxP r) \<and> Y (MinP r) \<le> Y (MaxP r)" by simp
  then have "\<forall>v \<in> set (shaderTris ui1).
      X (MinP (clipRect v)) \<le> X (MaxP (clipRect v)) \<and>
      Y (MinP (clipRect v)) \<le> Y (MaxP (clipRect v))" by simp
  with e show ?thesis by simp
qed

text \<open>
  The theorem on the example frame: the rectangle from (10, 20) to (110, 220) of the GUI
  library, which has its origin at the top, becomes the rectangle from (10, 380) to
  (110, 580) of the 600 high window.
\<close>

theorem Draw_clipRect_normalised_witness:
  "Draw ex_ui ex_data = Inr ex_drawn \<and>
   map clipRect (shaderTris ex_drawn) =
     [pixel_R 10 380 110 580, pixel_R 10 380 110 580, pixel_R 10 380 110 580, pixel_R 0 600 0 600] \<and>
   X (MinP (clipRect (shaderTris ex_drawn ! 0))) \<le> X (MaxP (clipRect (shaderTris ex_drawn ! 0))) \<and>
   Y (MinP (clipRect (shaderTris ex_drawn ! 0))) \<le> Y (MaxP (clipRect (shaderTris ex_drawn ! 0)))"
proof -
  have m: "map clipRect (shaderTris ex_drawn) =
     [pixel_R 10 380 110 580, pixel_R 10 380 110 580, pixel_R 10 380 110 580, pixel_R 0 600 0 600]"
    by (simp add: ex_drawn_tris)
  have "shaderTris ex_drawn ! 0 \<in> set (shaderTris ex_drawn)" by (simp add: ex_drawn_tris)
  with Draw_clipRect_normalised [OF ex_Draw]
  have "X (MinP (clipRect (shaderTris ex_drawn ! 0))) \<le> X (MaxP (clipRect (shaderTris ex_drawn ! 0))) \<and>
   Y (MinP (clipRect (shaderTris ex_drawn ! 0))) \<le> Y (MaxP (clipRect (shaderTris ex_drawn ! 0)))"
    by blast
  with m ex_Draw show ?thesis by simp
qed

text \<open>
  Claim C9. A command list without commands is passed over: the triangle count and the UI,
  and with it the triangle buffer and its length, are what they were, and the loop goes on
  with the lists that follow as if the list were not there.
\<close>

theorem drawList_no_commands:
  "Commands cmds = [] \<Longrightarrow>
     drawList cmds (totalTris, ui) = Inr (totalTris, ui) \<and>
     commandListsLoop (cmds # rest) (totalTris, ui) = commandListsLoop rest (totalTris, ui)"
  by (simp add: drawList_def)

text \<open>The theorem on the first list of the example frame.\<close>

theorem drawList_no_commands_witness:
  "Commands ex_listA = [] \<and>
   drawList ex_listA (0, ex_ui) = Inr (0, ex_ui) \<and>
   commandListsLoop (ex_listA # [ex_listB]) (0, ex_ui) = commandListsLoop [ex_listB] (0, ex_ui)"
proof -
  have h: "Commands ex_listA = []" by (simp add: ex_listA_def)
  from h drawList_no_commands [OF h, of 0 ex_ui "[ex_listB]"] show ?thesis by simp
qed
section \<open>The all-zero clip rectangle\<close>

lemma clipRectOf_zero:
  "clipRectOf m \<lparr> X4 = 0, Y4 = 0, Z4 = 0, W4 = 0 \<rparr> =
     \<lparr> MinP = Matrix_Project m pixel_ZV, MaxP = Matrix_Project m pixel_ZV \<rparr>"
  by (simp add: clipRectOf_def imguiRectToPixelRect_def pixel_R_def Rect_Norm_def pixel_V_def
      pixel_ZV_def Let_def)

text \<open>
  The matrix \<open>Draw\<close> sets is the flip about the centre of the window: it sends the origin
  to the point at height twice the centre's.
\<close>

lemma updateMatrix_origin:
  "Matrix_Project (matrix (updateMatrix ui)) pixel_ZV =
     pixel_V 0 (f64 (2 * Y (Rect_Center (Bounds (win ui)))))"
proof -
  define c where "c = Rect_Center (Bounds (win ui))"
  have cx: "f64 (X c) = X c" and cy: "f64 (Y c) = Y c"
    by (simp_all add: c_def Rect_Center_def pixel_Lerp_def Vec_Add_def pixel_V_def add64_def
        f64_idempotent)
  have "m4 (matrix (updateMatrix ui)) = 0"
    by (simp add: updateMatrix_def Matrix_ScaledXY_def Let_def pixel_IM_def pixel_V_def
        sub64_def mul64_def add64_def f64_minus f64_zero cx c_def [symmetric])
  moreover have "m5 (matrix (updateMatrix ui)) = f64 (2 * Y c)"
    by (simp add: updateMatrix_def Matrix_ScaledXY_def Let_def pixel_IM_def pixel_V_def
        sub64_def mul64_def add64_def f64_minus f64_zero cy c_def [symmetric])
  ultimately show ?thesis
    by (simp add: Matrix_Project_def pixel_ZV_def pixel_V_def mul64_def add64_def f64_zero
        f64_idempotent c_def)
qed

lemma narrowRect_point:
  "narrowRect \<lparr> MinP = pixel_V a b, MaxP = pixel_V a b \<rparr> = pixel_R (f32 a) (f32 b) (f32 a) (f32 b)"
  by (simp add: narrowRect_def narrowVec_def pixel_R_def pixel_V_def)

text \<open>
  Claim C2, as the code has it. \<open>Draw\<close> treats the all-zero clip rectangle like any other:
  it is normalised, its corners are projected through the UI matrix, and the result is
  stored as \<open>float32\<close>. The vertices of a command with the all-zero clip rectangle
  therefore carry the rectangle \<open>(0, h, 0, h)\<close>, both of whose corners are the image of the
  origin, \<open>h\<close> being twice the height of the centre of the window's bounds, narrowed to
  \<open>float32\<close>; those of every other command carry the narrowed rectangle lines 176 to 179
  compute.
\<close>

theorem Draw_zero_clipRect_projected:
  "Draw ui data = Inr ui1 \<Longrightarrow>
     map clipRect (shaderTris ui1) =
       spec_perVertex
         (\<lambda>cmd. if ClipRect cmd = \<lparr> X4 = 0, Y4 = 0, Z4 = 0, W4 = 0 \<rparr>
                 then pixel_R 0 (f32 (f64 (2 * Y (Rect_Center (Bounds (win ui))))))
                              0 (f32 (f64 (2 * Y (Rect_Center (Bounds (win ui))))))
                 else narrowRect (clipRectOf (matrix ui1) (ClipRect cmd))) data"
proof -
  assume "Draw ui data = Inr ui1"
  note d = Draw_Inr [OF this]
  from d have a: "map vertexAttrs (shaderTris ui1) = spec_perVertex (cmdAttrs (updateMatrix ui)) data"
    by simp
  from d have "ui1 = (updateMatrix ui)\<lparr> shaderTris := shaderTris ui1 \<rparr>" by simp
  then have "matrix ui1 = matrix ((updateMatrix ui)\<lparr> shaderTris := shaderTris ui1 \<rparr>)" by simp
  then have m: "matrix ui1 = matrix (updateMatrix ui)" by simp
  have z: "(\<lambda>cmd. snd (cmdAttrs (updateMatrix ui) cmd)) =
      (\<lambda>cmd. if ClipRect cmd = \<lparr> X4 = 0, Y4 = 0, Z4 = 0, W4 = 0 \<rparr>
                 then pixel_R 0 (f32 (f64 (2 * Y (Rect_Center (Bounds (win ui))))))
                              0 (f32 (f64 (2 * Y (Rect_Center (Bounds (win ui))))))
                 else narrowRect (clipRectOf (matrix ui1) (ClipRect cmd)))"
    by (rule ext)
      (simp add: cmdAttrs_def m clipRectOf_zero updateMatrix_origin narrowRect_point f32_zero)
  have "map clipRect (shaderTris ui1) = map snd (map vertexAttrs (shaderTris ui1))"
    by (simp add: vertexAttrs_def comp_def)
  also have "\<dots> = spec_perVertex (\<lambda>cmd. snd (cmdAttrs (updateMatrix ui) cmd)) data"
    by (simp only: a map_spec_perVertex)
  finally show ?thesis by (simp only: z)
qed

lemma ex_clipRects:
  "spec_perVertex ClipRect ex_data =
     [ \<lparr> X4 = 10, Y4 = 20, Z4 = 110, W4 = 220 \<rparr>, \<lparr> X4 = 10, Y4 = 20, Z4 = 110, W4 = 220 \<rparr>,
       \<lparr> X4 = 10, Y4 = 20, Z4 = 110, W4 = 220 \<rparr>, \<lparr> X4 = 0, Y4 = 0, Z4 = 0, W4 = 0 \<rparr> ]"
  by code_simp

lemma ex_centre: "f32 (f64 (2 * Y (Rect_Center (Bounds (win ex_ui))))) = 600"
  by code_simp

text \<open>
  The theorem on the example frame, whose last vertex belongs to the command with the
  all-zero clip rectangle: the centre of the 800 by 600 window is at height 300.
\<close>

theorem Draw_zero_clipRect_projected_witness:
  "Draw ex_ui ex_data = Inr ex_drawn \<and>
   f32 (f64 (2 * Y (Rect_Center (Bounds (win ex_ui))))) = 600 \<and>
   map clipRect (shaderTris ex_drawn) =
     [pixel_R 10 380 110 580, pixel_R 10 380 110 580, pixel_R 10 380 110 580, pixel_R 0 600 0 600] \<and>
   spec_perVertex
     (\<lambda>cmd. if ClipRect cmd = \<lparr> X4 = 0, Y4 = 0, Z4 = 0, W4 = 0 \<rparr>
             then pixel_R 0 600 0 600
             else narrowRect (clipRectOf (matrix ex_drawn) (ClipRect cmd))) ex_data =
     [pixel_R 10 380 110 580, pixel_R 10 380 110 580, pixel_R 10 380 110 580, pixel_R 0 600 0 600]"
proof -
  have m: "map clipRect (shaderTris ex_drawn) =
     [pixel_R 10 380 110 580, pixel_R 10 380 110 580, pixel_R 10 380 110 580, pixel_R 0 600 0 600]"
    by (simp add: ex_drawn_tris)
  note t = Draw_zero_clipRect_projected [OF ex_Draw, unfolded ex_centre]
  from t [symmetric] m ex_Draw ex_centre show ?thesis by (simp only: simp_thms)
qed

text \<open>
  Where the height is not a \<open>float32\<close> value the narrowing shows: for a window with the
  bounds (0, 0) to (800.5, 600.3) the height \<open>h\<close> of the rectangle is the \<open>float32\<close>
  nearest to 600.3, which is not the \<open>float64\<close> the projection computes.
\<close>

lemma narrowed_height_example:
  "f32 (f64 (2 * Y (Rect_Center (pixel_R 0 0 (f64 (1601 / 2)) (f64 (6003 / 10)))))) =
     9835315 / 16384 \<and>
   f64 (2 * Y (Rect_Center (pixel_R 0 0 (f64 (1601 / 2)) (f64 (6003 / 10))))) \<noteq> 9835315 / 16384"
  by code_simp

text \<open>
  Claim C2, as the specification has it, fails on the example frame: the command
  \<open>ex_cmd2\<close> has the clip rectangle (0, 0, 0, 0) and owns the fourth output vertex, whose
  clip rectangle is (0, 600, 0, 600).
\<close>

theorem Draw_zero_clipRect_counterexample:
  "Draw ex_ui ex_data = Inr ex_drawn \<and>
   spec_perVertex ClipRect ex_data ! 3 = \<lparr> X4 = 0, Y4 = 0, Z4 = 0, W4 = 0 \<rparr> \<and>
   clipRect (shaderTris ex_drawn ! 3) = pixel_R 0 600 0 600 \<and>
   clipRect (shaderTris ex_drawn ! 3) \<noteq> pixel_R 0 0 0 0"
  by (simp add: ex_Draw ex_clipRects ex_drawn_tris pixel_R_def pixel_V_def)

section \<open>The atlas remap\<close>

lemma calcData_recip:
  assumes "Textures (atlas ui) = t # ts"
  shows "calcData ui frame raw = Inr (spec_atlasUV_recip frame (Rect_Size t) raw)"
  using assms
  by (simp add: calcData_def spec_atlasUV_recip_def Vec_ScaledXY_def Vec_Add_def Vec_Map_def
      Rect_Size_def pixel_V_def recip_def)

lemma spec_atlasUV_recip_exact:
  assumes "f64 (1 / X s) = 1 / X s" and "f64 (1 / Y s) = 1 / Y s"
  shows "spec_atlasUV_recip frame s raw = spec_atlasUV frame s raw"
  using assms by (simp add: spec_atlasUV_recip_def spec_atlasUV_def mul64_def div64_def)

lemma mul64_one_size:
  "mul64 1 (Rect_W frame) = Rect_W frame" "mul64 1 (Rect_H frame) = Rect_H frame"
  by (simp_all add: mul64_def Rect_W_def Rect_H_def sub64_def f64_idempotent)

lemma spec_atlasUV_recip_min:
  assumes "f64 (X (MinP frame)) = X (MinP frame)" and "f64 (Y (MinP frame)) = Y (MinP frame)"
  shows "spec_atlasUV_recip frame s (pixel_V 0 0) =
           pixel_V (mul64 (X (MinP frame)) (div64 1 (X s))) (mul64 (Y (MinP frame)) (div64 1 (Y s)))"
  using assms
  by (simp add: spec_atlasUV_recip_def pixel_V_def mul64_def add64_def f64_zero)

lemma spec_atlasUV_recip_max:
  assumes "Vec_Add (Rect_Size frame) (MinP frame) = MaxP frame"
  shows "spec_atlasUV_recip frame s (pixel_V 1 1) =
           pixel_V (mul64 (X (MaxP frame)) (div64 1 (X s))) (mul64 (Y (MaxP frame)) (div64 1 (Y s)))"
proof -
  from assms have "X (Vec_Add (Rect_Size frame) (MinP frame)) = X (MaxP frame)"
    and "Y (Vec_Add (Rect_Size frame) (MinP frame)) = Y (MaxP frame)" by simp_all
  then have "add64 (Rect_W frame) (X (MinP frame)) = X (MaxP frame)"
    and "add64 (Rect_H frame) (Y (MinP frame)) = Y (MaxP frame)"
    by (simp_all add: Vec_Add_def Rect_Size_def pixel_V_def)
  then show ?thesis
    by (simp add: spec_atlasUV_recip_def pixel_V_def Rect_Size_def mul64_one_size)
qed

lemma mul64_div64_exact:
  assumes "f64 (1 / w) = 1 / w"
  shows "mul64 a (div64 1 w) = div64 a w"
  using assms by (simp add: mul64_def div64_def)

text \<open>
  Claim C3, as the code has it. For every frame and every raw coordinate \<open>calcData\<close>
  returns, on each axis, the raw coordinate times the size of the frame plus its minimum
  corner, multiplied by the rounded reciprocal of the atlas size; the raw coordinate (0, 0)
  maps to the minimum corner times that reciprocal, and (1, 1), for a frame whose size added
  to its minimum corner gives its maximum corner in \<open>float64\<close> (integer pixel coordinates),
  to the maximum corner times that reciprocal. Where the reciprocal is exact in \<open>float64\<close>
  (a size that is a power of two) the three are the quotients of the specification.
\<close>

theorem calcData_atlas_remap:
  assumes "Textures (atlas ui) = t # ts"
    and "Rect_W t \<noteq> 0" and "Rect_H t \<noteq> 0"
  shows
    "calcData ui frame raw = Inr (spec_atlasUV_recip frame (Rect_Size t) raw) \<and>
     (f64 (X (MinP frame)) = X (MinP frame) \<and> f64 (Y (MinP frame)) = Y (MinP frame) \<longrightarrow>
        calcData ui frame (pixel_V 0 0) =
          Inr (pixel_V (mul64 (X (MinP frame)) (div64 1 (Rect_W t)))
                       (mul64 (Y (MinP frame)) (div64 1 (Rect_H t))))) \<and>
     (Vec_Add (Rect_Size frame) (MinP frame) = MaxP frame \<longrightarrow>
        calcData ui frame (pixel_V 1 1) =
          Inr (pixel_V (mul64 (X (MaxP frame)) (div64 1 (Rect_W t)))
                       (mul64 (Y (MaxP frame)) (div64 1 (Rect_H t))))) \<and>
     (f64 (1 / Rect_W t) = 1 / Rect_W t \<and> f64 (1 / Rect_H t) = 1 / Rect_H t \<longrightarrow>
        calcData ui frame raw = Inr (spec_atlasUV frame (Rect_Size t) raw) \<and>
        (f64 (X (MinP frame)) = X (MinP frame) \<and> f64 (Y (MinP frame)) = Y (MinP frame) \<longrightarrow>
           calcData ui frame (pixel_V 0 0) =
             Inr (pixel_V (div64 (X (MinP frame)) (Rect_W t)) (div64 (Y (MinP frame)) (Rect_H t)))) \<and>
        (Vec_Add (Rect_Size frame) (MinP frame) = MaxP frame \<longrightarrow>
           calcData ui frame (pixel_V 1 1) =
             Inr (pixel_V (div64 (X (MaxP frame)) (Rect_W t)) (div64 (Y (MaxP frame)) (Rect_H t)))))"
proof -
  note c = calcData_recip [OF assms(1)]
  have s: "X (Rect_Size t) = Rect_W t" "Y (Rect_Size t) = Rect_H t"
    by (simp_all add: Rect_Size_def pixel_V_def)
  have e: "f64 (1 / Rect_W t) = 1 / Rect_W t \<and> f64 (1 / Rect_H t) = 1 / Rect_H t \<Longrightarrow>
      spec_atlasUV_recip frame (Rect_Size t) raw = spec_atlasUV frame (Rect_Size t) raw"
    by (rule spec_atlasUV_recip_exact) (simp_all add: s)
  show ?thesis
    by (simp add: c spec_atlasUV_recip_min spec_atlasUV_recip_max s e mul64_div64_exact)
qed

lemma ex_atlas: "Textures (atlas ex_ui) = [pixel_R 0 0 64 64]"
  by (simp add: ex_ui_def)

lemma ex_atlas49: "Textures (atlas ex_ui49) = [pixel_R 0 0 49 49]"
  by (simp add: ex_ui49_def)

lemma ex_atlas_size:
  "Rect_W (pixel_R 0 0 64 64) = 64" "Rect_H (pixel_R 0 0 64 64) = 64"
  "Rect_W (pixel_R 0 0 49 49) = 49" "Rect_H (pixel_R 0 0 49 49) = 49"
  by code_simp+

lemma ex_exact: "f64 (1 / 64) = 1 / 64" "f64 16 = 16"
  by code_simp+

lemma ex_frame_size:
  "Vec_Add (Rect_Size (pixel_R 16 16 48 48)) (MinP (pixel_R 16 16 48 48)) = MaxP (pixel_R 16 16 48 48)"
  "Vec_Add (Rect_Size (pixel_R 0 0 49 49)) (MinP (pixel_R 0 0 49 49)) = MaxP (pixel_R 0 0 49 49)"
  by code_simp+

text \<open>
  The theorem on the atlas of 49 by 49, where the frame is the whole texture and the raw
  coordinate (1, 1) maps to 49 times the rounded reciprocal of 49, which is \<open>1 - 2^-53\<close>;
  and on the example UI, whose atlas texture is 64 by 64, where the corners of the frame
  from (16, 16) to (48, 48) map to the quotients (1/4, 1/4) and (3/4, 3/4).
\<close>

theorem calcData_atlas_remap_witness:
  "Textures (atlas ex_ui49) = [pixel_R 0 0 49 49] \<and>
   Rect_W (pixel_R 0 0 49 49) = 49 \<and> Rect_H (pixel_R 0 0 49 49) = 49 \<and>
   calcData ex_ui49 (pixel_R 0 0 49 49) (pixel_V 1 1) =
     Inr (pixel_V (9007199254740991 / 9007199254740992) (9007199254740991 / 9007199254740992)) \<and>
   Textures (atlas ex_ui) = [pixel_R 0 0 64 64] \<and>
   Rect_W (pixel_R 0 0 64 64) = 64 \<and> Rect_H (pixel_R 0 0 64 64) = 64 \<and>
   f64 (1 / 64) = 1 / 64 \<and>
   calcData ex_ui (pixel_R 16 16 48 48) (pixel_V (1 / 2) 1) =
     Inr (spec_atlasUV (pixel_R 16 16 48 48) (Rect_Size (pixel_R 0 0 64 64)) (pixel_V (1 / 2) 1)) \<and>
   calcData ex_ui (pixel_R 16 16 48 48) (pixel_V 0 0) = Inr (pixel_V (1 / 4) (1 / 4)) \<and>
   calcData ex_ui (pixel_R 16 16 48 48) (pixel_V 1 1) = Inr (pixel_V (3 / 4) (3 / 4))"
proof -
  have d: "div64 16 64 = 1 / 4" "div64 48 64 = 3 / 4"
    "mul64 49 (div64 1 49) = 9007199254740991 / 9007199254740992" by code_simp+
  have w: "Rect_W (pixel_R 0 0 64 64) \<noteq> 0" "Rect_H (pixel_R 0 0 64 64) \<noteq> 0"
    by (simp_all add: ex_atlas_size)
  have w49: "Rect_W (pixel_R 0 0 49 49) \<noteq> 0" "Rect_H (pixel_R 0 0 49 49) \<noteq> 0"
    by (simp_all add: ex_atlas_size)
  have r: "f64 (1 / Rect_W (pixel_R 0 0 64 64)) = 1 / Rect_W (pixel_R 0 0 64 64) \<and>
    f64 (1 / Rect_H (pixel_R 0 0 64 64)) = 1 / Rect_H (pixel_R 0 0 64 64)"
    by (simp add: ex_atlas_size ex_exact)
  have x: "X (MinP (pixel_R 16 16 48 48)) = 16" "Y (MinP (pixel_R 16 16 48 48)) = 16"
    "X (MaxP (pixel_R 16 16 48 48)) = 48" "Y (MaxP (pixel_R 16 16 48 48)) = 48"
    "X (MaxP (pixel_R 0 0 49 49)) = 49" "Y (MaxP (pixel_R 0 0 49 49)) = 49"
    by (simp_all add: pixel_R_def pixel_V_def)
  note t49 = calcData_atlas_remap [OF ex_atlas49 w49]
  from t49 [of "pixel_R 0 0 49 49" "pixel_V 1 1", THEN conjunct2, THEN conjunct2, THEN conjunct1,
      rule_format, OF ex_frame_size(2)]
  have z: "calcData ex_ui49 (pixel_R 0 0 49 49) (pixel_V 1 1) =
     Inr (pixel_V (9007199254740991 / 9007199254740992) (9007199254740991 / 9007199254740992))"
    by (simp add: x ex_atlas_size d)
  note t = calcData_atlas_remap [OF ex_atlas w]
  note q = t [THEN conjunct2, THEN conjunct2, THEN conjunct2, rule_format, OF r]
  from q [of "pixel_R 16 16 48 48" "pixel_V (1 / 2) 1", THEN conjunct1]
  have a: "calcData ex_ui (pixel_R 16 16 48 48) (pixel_V (1 / 2) 1) =
     Inr (spec_atlasUV (pixel_R 16 16 48 48) (Rect_Size (pixel_R 0 0 64 64)) (pixel_V (1 / 2) 1))" .
  from q [of "pixel_R 16 16 48 48" "pixel_V 0 0", THEN conjunct2, THEN conjunct1, rule_format]
  have b: "calcData ex_ui (pixel_R 16 16 48 48) (pixel_V 0 0) = Inr (pixel_V (1 / 4) (1 / 4))"
    by (simp add: x ex_exact ex_atlas_size d)
  from q [of "pixel_R 16 16 48 48" "pixel_V 1 1", THEN conjunct2, THEN conjunct2, rule_format,
      OF ex_frame_size(1)]
  have c: "calcData ex_ui (pixel_R 16 16 48 48) (pixel_V 1 1) = Inr (pixel_V (3 / 4) (3 / 4))"
    by (simp add: x ex_atlas_size d)
  from ex_atlas ex_atlas49 ex_atlas_size ex_exact z a b c show ?thesis by simp
qed

text \<open>
  Claim C3, as the specification has it, fails on an atlas texture of 49 by 49 whose frame
  is the whole texture: the reciprocal of 49 is not exact, and the raw coordinate (1, 1) maps
  to \<open>1 - 2^-53\<close> on each axis, where the quotient of the specification, 49 / 49, is 1.
\<close>

theorem calcData_atlas_remap_counterexample:
  "calcData ex_ui49 (pixel_R 0 0 49 49) (pixel_V 1 1) =
     Inr (pixel_V (9007199254740991 / 9007199254740992) (9007199254740991 / 9007199254740992)) \<and>
   spec_atlasUV (pixel_R 0 0 49 49) (Rect_Size (pixel_R 0 0 49 49)) (pixel_V 1 1) = pixel_V 1 1 \<and>
   calcData ex_ui49 (pixel_R 0 0 49 49) (pixel_V 1 1) \<noteq>
     Inr (spec_atlasUV (pixel_R 0 0 49 49) (Rect_Size (pixel_R 0 0 49 49)) (pixel_V 1 1))"
  by code_simp

text \<open>
  The condition on the frame is needed as well: for the frame from (0.2, 0.2) to (0.9, 0.9),
  taken to the nearest \<open>float64\<close> values, the size added to the minimum corner is not the
  maximum corner, and on the 64 by 64 atlas the raw coordinate (1, 1) does not map to the
  maximum corner divided by the atlas size.
\<close>

lemma calcData_corner_drift_example:
  "Vec_Add (Rect_Size (pixel_R (f64 (2 / 10)) (f64 (2 / 10)) (f64 (9 / 10)) (f64 (9 / 10))))
     (MinP (pixel_R (f64 (2 / 10)) (f64 (2 / 10)) (f64 (9 / 10)) (f64 (9 / 10)))) \<noteq>
   MaxP (pixel_R (f64 (2 / 10)) (f64 (2 / 10)) (f64 (9 / 10)) (f64 (9 / 10))) \<and>
   calcData ex_ui (pixel_R (f64 (2 / 10)) (f64 (2 / 10)) (f64 (9 / 10)) (f64 (9 / 10))) (pixel_V 1 1) \<noteq>
     Inr (pixel_V (div64 (f64 (9 / 10)) 64) (div64 (f64 (9 / 10)) 64))"
  by code_simp

end
